theory Spec2Isabelle
  imports Complex_Main
begin

section \<open>Frames, masks and drawing\<close>

text \<open>
  The detection modules draw on a colour frame with OpenCV and cvzone and read a
  single-channel mask. A frame is modelled by its shape and by the ordered list of
  drawing calls applied to it; the pixel values of a colour frame are never read by
  the functions below. Colours are BGR triples, as OpenCV takes them; thickness,
  scale and font arguments are left out of the drawing calls.
\<close>

type_synonym colour = "nat \<times> nat \<times> nat"
type_synonym point = "int \<times> int"

datatype draw =
    PutText string point colour
  | Rectangle point point colour
  | TextRect string point
  | Line point point colour
  | Circle point int colour

record frame =
  shape0 :: nat
  shape1 :: nat
  drawn :: "draw list"

definition draw :: "draw \<Rightarrow> frame \<Rightarrow> frame" where
  "draw d f = f\<lparr>drawn := drawn f @ [d]\<rparr>"

text \<open>Python's \<open>str\<close> on a non-negative and on an arbitrary integer.\<close>

definition digit_char :: "nat \<Rightarrow> char" where
  "digit_char d = ''0123456789'' ! d"

fun str_nat :: "nat \<Rightarrow> string" where
  "str_nat n = (if n < 10 then [digit_char n] else str_nat (n div 10) @ [digit_char (n mod 10)])"

declare str_nat.simps [simp del]

definition str_int :: "int \<Rightarrow> string" where
  "str_int i = (if i < 0 then CHR ''-'' # str_nat (nat (- i)) else str_nat (nat i))"

text \<open>
  A processed mask is a two-dimensional array of 8-bit values, stored by rows.
  \<open>mask_shape0\<close> and \<open>mask_shape1\<close> are \<open>processed_img.shape[0]\<close> and
  \<open>processed_img.shape[1]\<close>.
\<close>

type_synonym mask = "nat list list"

definition mask_shape0 :: "mask \<Rightarrow> int" where
  "mask_shape0 m = int (length m)"

definition mask_shape1 :: "mask \<Rightarrow> int" where
  "mask_shape1 m = (case m of [] \<Rightarrow> 0 | r # _ \<Rightarrow> int (length r))"

text \<open>
  Python slicing \<open>xs[a:b]\<close>: a negative bound counts from the end, and both bounds
  are clipped to the length.
\<close>

definition py_bound :: "int \<Rightarrow> nat \<Rightarrow> nat" where
  "py_bound i n = (if i < 0 then nat (max (i + int n) 0) else min (nat i) n)"

definition py_slice :: "int \<Rightarrow> int \<Rightarrow> 'a list \<Rightarrow> 'a list" where
  "py_slice a b xs =
     take (py_bound b (length xs) - py_bound a (length xs)) (drop (py_bound a (length xs)) xs)"

definition countNonZero :: "mask \<Rightarrow> int" where
  "countNonZero m = int (sum_list (map (\<lambda>row. length (filter (\<lambda>p. p \<noteq> 0) row)) m))"

section \<open>Parking space check (detection/parking\_detection.py)\<close>

type_synonym region = "int \<times> int \<times> int \<times> int"

text \<open>The guard of lines 27-28.\<close>

definition in_bounds :: "mask \<Rightarrow> region \<Rightarrow> bool" where
  "in_bounds processed_img r =
     (case r of (x, y, w, h) \<Rightarrow>
        y \<ge> 0 \<and> y + h < mask_shape0 processed_img \<and>
        x \<ge> 0 \<and> x + w < mask_shape1 processed_img)"

text \<open>Lines 34-35: \<open>cv2.countNonZero(processed_img[y:y + h, x:x + w])\<close>.\<close>

definition region_count :: "mask \<Rightarrow> region \<Rightarrow> int" where
  "region_count processed_img r =
     (case r of (x, y, w, h) \<Rightarrow>
        countNonZero (map (py_slice x (x + w)) (py_slice y (y + h) processed_img)))"

definition green :: colour where "green = (0, 255, 0)"
definition red :: colour where "red = (0, 0, 255)"
definition blue :: colour where "blue = (255, 0, 0)"

text \<open>
  The body of the loop of \<open>check_parking_space\<close> for the region with index \<open>i\<close>,
  on the pair of the annotated image and \<open>space_counter\<close>.
\<close>

definition space_step :: "mask \<Rightarrow> int \<Rightarrow> nat \<Rightarrow> region \<Rightarrow> frame \<times> int \<Rightarrow> frame \<times> int" where
  "space_step processed_img threshold i r st =
     (case r of (x, y, w, h) \<Rightarrow>
      case st of (img, space_counter) \<Rightarrow>
        if in_bounds processed_img (x, y, w, h) then
          let img1 = draw (PutText (str_nat i) (x + 5, y + 15) (255, 255, 0)) img;
              count = region_count processed_img (x, y, w, h);
              (color, space_counter') =
                 (if count < threshold then (green, space_counter + 1)
                  else (red, space_counter));
              img2 = draw (Rectangle (x, y) (x + w, y + h) color) img1;
              img3 = draw (TextRect (str_int count) (x, y + h - 3)) img2
          in (img3, space_counter')
        else (img, space_counter))"

fun check_spaces :: "mask \<Rightarrow> int \<Rightarrow> nat \<Rightarrow> region list \<Rightarrow> frame \<times> int \<Rightarrow> frame \<times> int" where
  "check_spaces processed_img threshold i [] st = st"
| "check_spaces processed_img threshold i (r # rs) st =
     check_spaces processed_img threshold (Suc i) rs (space_step processed_img threshold i r st)"

definition check_parking_space :: "mask \<Rightarrow> frame \<Rightarrow> region list \<Rightarrow> int \<Rightarrow> frame \<times> int" where
  "check_parking_space processed_img img parking_positions threshold =
     check_spaces processed_img threshold 0 parking_positions (img, 0)"

section \<open>Vehicle counting (detection/vehicle\_counting.py)\<close>

type_synonym centroid = point

definition get_centroid :: "int \<Rightarrow> int \<Rightarrow> int \<Rightarrow> int \<Rightarrow> centroid" where
  "get_centroid x y w h = (x + w div 2, y + h div 2)"

text \<open>
  Lines 25-27 and 67-69: the configured line height, replaced by the frame height
  minus 50 when it is not below the frame height.
\<close>

definition line_position :: "int \<Rightarrow> frame \<Rightarrow> int" where
  "line_position line_height f =
     (if line_height \<ge> int (shape0 f) then int (shape0 f) - 50 else line_height)"

text \<open>The chained comparison of lines 49 and 97.\<close>

definition crossing :: "int \<Rightarrow> int \<Rightarrow> int \<Rightarrow> bool" where
  "crossing line_y offset y = (line_y - offset < y \<and> y < line_y + offset)"

subsection \<open>Frame differencing\<close>

text \<open>
  Lines 12-22 call OpenCV only (difference, blur, threshold, dilation, closing,
  \<open>findContours\<close>); their result enters the model as \<open>contours\<close>, the list of
  \<open>cv2.boundingRect(c)\<close> for the contours found, in order.

  \<open>add_contours\<close> is the loop of lines 32-43 on the frame and \<open>new_matches\<close>.
\<close>

fun add_contours :: "int \<Rightarrow> int \<Rightarrow> region list \<Rightarrow> frame \<times> centroid list \<Rightarrow> frame \<times> centroid list" where
  "add_contours min_contour_width min_contour_height [] st = st"
| "add_contours min_contour_width min_contour_height ((x, y, w, h) # cs) (frame1, new_matches) =
     (if \<not> (w \<ge> min_contour_width \<and> h \<ge> min_contour_height) then
        add_contours min_contour_width min_contour_height cs (frame1, new_matches)
      else
        let f1 = draw (Rectangle (x - 10, y - 10) (x + w + 10, y + h + 10) blue) frame1;
            centroid = get_centroid x y w h;
            f2 = draw (Circle centroid 5 green) f1
        in add_contours min_contour_width min_contour_height cs (f2, new_matches @ [centroid]))"

text \<open>The loop of lines 48-52 on \<open>remaining_matches\<close> and \<open>new_counter\<close>.\<close>

fun count_crossed :: "int \<Rightarrow> int \<Rightarrow> centroid list \<Rightarrow> centroid list \<times> int \<Rightarrow> centroid list \<times> int" where
  "count_crossed line_y offset [] st = st"
| "count_crossed line_y offset ((x, y) # ms) (remaining_matches, new_counter) =
     (if crossing line_y offset y then
        count_crossed line_y offset ms (remaining_matches, new_counter + 1)
      else
        count_crossed line_y offset ms (remaining_matches @ [(x, y)], new_counter))"

definition detect_vehicles_traditional ::
  "frame \<Rightarrow> region list \<Rightarrow> int \<Rightarrow> int \<Rightarrow> int \<Rightarrow> int \<Rightarrow> centroid list \<Rightarrow> int
     \<Rightarrow> frame \<times> centroid list \<times> int" where
  "detect_vehicles_traditional frame1 contours min_contour_width min_contour_height
       line_height offset matches vehicle_counter =
     (let line_y = line_position line_height frame1;
          f1 = draw (Line (0, line_y) (int (shape1 frame1), line_y) green) frame1;
          (f2, new_matches) =
             add_contours min_contour_width min_contour_height contours (f1, matches);
          (remaining_matches, new_counter) =
             count_crossed line_y offset new_matches ([], vehicle_counter);
          f3 = draw (TextRect (''Vehicle Count: '' @ str_int new_counter) (10, 30)) f2
      in (f3, remaining_matches, new_counter))"

subsection \<open>Detector-based counting\<close>

text \<open>
  The whole body of \<open>detect_vehicles_ml\<close> is inside \<open>try\<close>, so every call it makes
  is a place where the block can be left by an exception: the injected detector,
  \<open>classes[label]\<close> (\<open>IndexError\<close> for a label outside the list), the OpenCV and
  cvzone drawing calls, and the numpy arithmetic of line 104. The detector and the
  libraries are outside the repository; whether a library call raises is given by
  \<open>lib\<close>. The score of a detection is only formatted into a label text; its type is
  left open and \<open>fmt\<close> stands for Python's \<open>format(score, '.2f')\<close>.
\<close>

datatype exn =
    DetectorError string
  | IndexError
  | CvError draw
  | NumpyError centroid centroid

type_synonym 's detection = "int \<times> int \<times> int \<times> int \<times> 's \<times> int"

record 's ml_detector =
  detect_vehicles :: "frame \<Rightarrow> exn + 's detection list"
  classes :: "string list"

record lib =
  cv_raises :: "draw \<Rightarrow> frame \<Rightarrow> bool"
  norm_raises :: "centroid \<Rightarrow> centroid \<Rightarrow> bool"

text \<open>The libraries when every call returns.\<close>

definition calls_return :: lib where
  "calls_return = \<lparr>cv_raises = (\<lambda>d f. False), norm_raises = (\<lambda>m c. False)\<rparr>"

text \<open>A drawing call: it raises, or it draws on the frame in place.\<close>

definition cv_draw :: "lib \<Rightarrow> draw \<Rightarrow> frame \<Rightarrow> exn + frame" where
  "cv_draw l d f = (if cv_raises l d f then Inl (CvError d) else Inr (draw d f))"

text \<open>Python list indexing with an integer index.\<close>

definition py_index :: "'a list \<Rightarrow> int \<Rightarrow> exn + 'a" where
  "py_index xs i =
     (if 0 \<le> i \<and> i < int (length xs) then Inr (xs ! nat i)
      else if i < 0 \<and> - int (length xs) \<le> i then Inr (xs ! nat (i + int (length xs)))
      else Inl IndexError)"

text \<open>
  Line 104 keeps a match when \<open>np.linalg.norm(np.array(match) - np.array(c)) < 50\<close>
  for some current centroid. On integer points the norm is the square root of the
  integer \<open>sq_dist\<close>, so the test is decided on the squares (\<open>near_iff_norm\<close> below).
\<close>

definition sq_dist :: "centroid \<Rightarrow> centroid \<Rightarrow> int" where
  "sq_dist m c = (fst m - fst c)\<^sup>2 + (snd m - snd c)\<^sup>2"

definition near :: "centroid \<Rightarrow> centroid \<Rightarrow> bool" where
  "near m c = (sq_dist m c < 2500)"

text \<open>Lines 79-81: the midpoint of a detection's box, with floor division.\<close>

definition box_centroid :: "'s detection \<Rightarrow> centroid" where
  "box_centroid d =
     (case d of (x1, y1, x2, y2, score, label) \<Rightarrow> ((x1 + x2) div 2, (y1 + y2) div 2))"

text \<open>
  The loop of lines 74-92 on the frame and \<open>current_centroids\<close>. An exception leaves
  the frame as drawn so far.
\<close>

fun process_detections ::
  "lib \<Rightarrow> ('s \<Rightarrow> string) \<Rightarrow> 's ml_detector \<Rightarrow> 's detection list \<Rightarrow> frame \<Rightarrow> centroid list
     \<Rightarrow> frame \<times> (exn + centroid list)" where
  "process_detections l fmt ml_detector [] f current_centroids = (f, Inr current_centroids)"
| "process_detections l fmt ml_detector ((x1, y1, x2, y2, score, label) # ds) f current_centroids =
     (case cv_draw l (Rectangle (x1, y1) (x2, y2) green) f of
        Inl e \<Rightarrow> (f, Inl e)
      | Inr f1 \<Rightarrow>
          (let centroid = box_centroid (x1, y1, x2, y2, score, label)
           in (case cv_draw l (Circle centroid 5 red) f1 of
                 Inl e \<Rightarrow> (f1, Inl e)
               | Inr f2 \<Rightarrow>
                   (case py_index (classes ml_detector) label of
                      Inl e \<Rightarrow> (f2, Inl e)
                    | Inr name \<Rightarrow>
                        (case cv_draw l (PutText (name @ '': '' @ fmt score) (x1, y1 - 10) green) f2 of
                           Inl e \<Rightarrow> (f2, Inl e)
                         | Inr f3 \<Rightarrow>
                             process_detections l fmt ml_detector ds f3
                               (current_centroids @ [centroid]))))))"

text \<open>
  The loop of lines 96-100. \<open>matches.append\<close> changes the caller's list in place, so
  the list is part of the state the loop returns.
\<close>

fun count_new :: "int \<Rightarrow> int \<Rightarrow> centroid list \<Rightarrow> centroid list \<times> int \<Rightarrow> centroid list \<times> int" where
  "count_new line_y offset [] st = st"
| "count_new line_y offset (centroid # cs) (matches, new_counter) =
     (if crossing line_y offset (snd centroid) then
        (if centroid \<notin> set matches then
           count_new line_y offset cs (matches @ [centroid], new_counter + 1)
         else count_new line_y offset cs (matches, new_counter))
      else count_new line_y offset cs (matches, new_counter))"

text \<open>
  Lines 103-104. \<open>any_near\<close> is the \<open>any(...)\<close> over the current centroids, which
  stops at the first one nearer than 50; \<open>prune\<close> is the comprehension over
  \<open>matches\<close>.
\<close>

fun any_near :: "lib \<Rightarrow> centroid \<Rightarrow> centroid list \<Rightarrow> exn + bool" where
  "any_near l match [] = Inr False"
| "any_near l match (c # cs) =
     (if norm_raises l match c then Inl (NumpyError match c)
      else if near match c then Inr True
      else any_near l match cs)"

fun prune :: "lib \<Rightarrow> centroid list \<Rightarrow> centroid list \<Rightarrow> exn + centroid list" where
  "prune l current_centroids [] = Inr []"
| "prune l current_centroids (match # ms) =
     (case any_near l match current_centroids of
        Inl e \<Rightarrow> Inl e
      | Inr keep \<Rightarrow>
          (case prune l current_centroids ms of
             Inl e \<Rightarrow> Inl e
           | Inr rest \<Rightarrow> Inr (if keep then match # rest else rest)))"

text \<open>
  Lines 64-92: the detector call, the line and the loop over the detections. The
  result is the frame as drawn so far and either the exception or \<open>line_y\<close> and
  \<open>current_centroids\<close>. The list \<open>matches\<close> is not touched here.
\<close>

definition ml_collect ::
  "lib \<Rightarrow> ('s \<Rightarrow> string) \<Rightarrow> 's ml_detector \<Rightarrow> int \<Rightarrow> frame
     \<Rightarrow> frame \<times> (exn + int \<times> centroid list)" where
  "ml_collect l fmt ml_detector line_height frame =
     (case detect_vehicles ml_detector frame of
        Inl e \<Rightarrow> (frame, Inl e)
      | Inr detections \<Rightarrow>
          (let line_y = line_position line_height frame
           in (case cv_draw l (Line (0, line_y) (int (shape1 frame), line_y) green) frame of
                 Inl e \<Rightarrow> (frame, Inl e)
               | Inr f1 \<Rightarrow>
                   (case process_detections l fmt ml_detector detections f1 [] of
                      (f2, Inl e) \<Rightarrow> (f2, Inl e)
                    | (f2, Inr current_centroids) \<Rightarrow> (f2, Inr (line_y, current_centroids))))))"

text \<open>
  The mutable objects the call shares with its caller: the frame and the list
  \<open>matches\<close>. \<open>ml_try\<close> is the body of the \<open>try\<close> block; it returns the objects as
  they are when the block is left, and either the exception or the pair
  \<open>(new_matches, new_counter)\<close>.
\<close>

record ml_store =
  frame_obj :: frame
  matches_obj :: "centroid list"

definition ml_try ::
  "lib \<Rightarrow> ('s \<Rightarrow> string) \<Rightarrow> 's ml_detector \<Rightarrow> int \<Rightarrow> int \<Rightarrow> int \<Rightarrow> ml_store
     \<Rightarrow> ml_store \<times> (exn + centroid list \<times> int)" where
  "ml_try l fmt ml_detector vehicle_counter line_height offset st =
     (case ml_collect l fmt ml_detector line_height (frame_obj st) of
        (f2, Inl e) \<Rightarrow> (st\<lparr>frame_obj := f2\<rparr>, Inl e)
      | (f2, Inr (line_y, current_centroids)) \<Rightarrow>
          (let (matches', new_counter) =
                 count_new line_y offset current_centroids (matches_obj st, vehicle_counter);
               st2 = \<lparr>frame_obj = f2, matches_obj = matches'\<rparr>
           in (case prune l current_centroids matches' of
                 Inl e \<Rightarrow> (st2, Inl e)
               | Inr new_matches \<Rightarrow>
                   (case cv_draw l (TextRect (''Vehicle Count: '' @ str_int new_counter) (10, 30)) f2 of
                      Inl e \<Rightarrow> (st2, Inl e)
                    | Inr f3 \<Rightarrow> (st2\<lparr>frame_obj := f3\<rparr>, Inr (new_matches, new_counter))))))"

text \<open>
  The whole function: the \<open>except\<close> branch (lines 111-113) returns the frame and the
  list \<open>matches\<close> as they are at that moment, and the counter it was given.
\<close>

definition detect_vehicles_ml ::
  "lib \<Rightarrow> ('s \<Rightarrow> string) \<Rightarrow> frame \<Rightarrow> 's ml_detector \<Rightarrow> centroid list \<Rightarrow> int \<Rightarrow> int \<Rightarrow> int
     \<Rightarrow> frame \<times> centroid list \<times> int" where
  "detect_vehicles_ml l fmt frame ml_detector matches vehicle_counter line_height offset =
     (case ml_try l fmt ml_detector vehicle_counter line_height offset
             \<lparr>frame_obj = frame, matches_obj = matches\<rparr> of
        (st, Inr (new_matches, new_counter)) \<Rightarrow> (frame_obj st, new_matches, new_counter)
      | (st, Inl e) \<Rightarrow> (frame_obj st, matches_obj st, vehicle_counter))"

section \<open>Closed forms used in the statements\<close>

text \<open>
  What one scored region adds to the image (lines 31, 43 and 44), the centroids and
  marks the contour loop adds (lines 34-43), and the labels \<open>classes[label]\<close>
  accepts.
\<close>

definition region_marks :: "mask \<Rightarrow> int \<Rightarrow> nat \<Rightarrow> region \<Rightarrow> draw list" where
  "region_marks processed_img threshold i r =
     (case r of (x, y, w, h) \<Rightarrow>
        [PutText (str_nat i) (x + 5, y + 15) (255, 255, 0),
         Rectangle (x, y) (x + w, y + h)
           (if threshold \<le> region_count processed_img r then red else green),
         TextRect (str_int (region_count processed_img r)) (x, y + h - 3)])"

definition contour_valid :: "int \<Rightarrow> int \<Rightarrow> region \<Rightarrow> bool" where
  "contour_valid min_contour_width min_contour_height r =
     (case r of (x, y, w, h) \<Rightarrow> w \<ge> min_contour_width \<and> h \<ge> min_contour_height)"

definition contour_centroids :: "int \<Rightarrow> int \<Rightarrow> region list \<Rightarrow> centroid list" where
  "contour_centroids min_contour_width min_contour_height cs =
     map (\<lambda>(x, y, w, h). get_centroid x y w h)
       (filter (contour_valid min_contour_width min_contour_height) cs)"

definition contour_marks :: "int \<Rightarrow> int \<Rightarrow> region list \<Rightarrow> draw list" where
  "contour_marks min_contour_width min_contour_height cs =
     concat (map (\<lambda>(x, y, w, h).
                    [Rectangle (x - 10, y - 10) (x + w + 10, y + h + 10) blue,
                     Circle (get_centroid x y w h) 5 green])
                 (filter (contour_valid min_contour_width min_contour_height) cs))"

definition det_label :: "'s detection \<Rightarrow> int" where
  "det_label d = (case d of (x1, y1, x2, y2, score, label) \<Rightarrow> label)"

definition valid_label :: "string list \<Rightarrow> int \<Rightarrow> bool" where
  "valid_label cls l = (- int (length cls) \<le> l \<and> l < int (length cls))"

section \<open>Concrete inputs\<close>

text \<open>
  Inputs used at the concrete evaluations below: a score format, a detector that
  reports one box with centroid \<open>(5, 100)\<close> and class 1, one that reports the same
  box with a class outside \<open>classes\<close>, and two library behaviours in which a call
  after the counting loop raises (\<open>cvzone.putTextRect\<close>, and \<open>np.linalg.norm\<close>).
\<close>

definition two_digits :: "unit \<Rightarrow> string" where
  "two_digits s = ''0.90''"

definition one_car :: "unit ml_detector" where
  "one_car = \<lparr>detect_vehicles = (\<lambda>f. Inr [(0, 90, 10, 110, (), 1)]),
              classes = [''background'', ''car'']\<rparr>"

definition unknown_class :: "unit ml_detector" where
  "unknown_class = \<lparr>detect_vehicles = (\<lambda>f. Inr [(0, 90, 10, 110, (), 5)]),
                    classes = [''background'', ''car'']\<rparr>"

definition text_rect_raises :: lib where
  "text_rect_raises =
     \<lparr>cv_raises = (\<lambda>d f. case d of TextRect t p \<Rightarrow> True | _ \<Rightarrow> False),
      norm_raises = (\<lambda>m c. False)\<rparr>"

definition norm_call_raises :: lib where
  "norm_call_raises = \<lparr>cv_raises = (\<lambda>d f. False), norm_raises = (\<lambda>m c. True)\<rparr>"

definition vga :: frame where
  "vga = \<lparr>shape0 = 480, shape1 = 640, drawn = []\<rparr>"

section \<open>Lemmas\<close>

subsection \<open>Drawing\<close>

lemma draw_simps:
  "drawn (draw d f) = drawn f @ [d]" "shape0 (draw d f) = shape0 f" "shape1 (draw d f) = shape1 f"
  by (simp_all add: draw_def)

subsection \<open>Parking space check\<close>

lemma space_step_skip:
  "\<not> in_bounds processed_img r \<Longrightarrow> space_step processed_img threshold i r st = st"
  by (cases r; cases st) (simp add: space_step_def)

lemma space_step_scored:
  "in_bounds processed_img r \<Longrightarrow>
   space_step processed_img threshold i r (img, sc) =
     (img\<lparr>drawn := drawn img @ region_marks processed_img threshold i r\<rparr>,
      if threshold \<le> region_count processed_img r then sc else sc + 1)"
  by (cases r) (simp add: space_step_def region_marks_def draw_def Let_def)

lemma check_spaces_counter:
  "snd (check_spaces processed_img threshold i rs (img, sc)) =
     sc + int (length [r \<leftarrow> rs. in_bounds processed_img r \<and> region_count processed_img r < threshold])"
proof (induction rs arbitrary: i img sc)
  case Nil
  show ?case by simp
next
  case (Cons r rs)
  show ?case
  proof (cases "in_bounds processed_img r")
    case True
    then show ?thesis using Cons.IH by (simp add: space_step_scored)
  next
    case False
    then show ?thesis using Cons.IH by (simp add: space_step_skip)
  qed
qed

lemma check_spaces_append:
  "check_spaces processed_img threshold i (ps @ qs) st =
     check_spaces processed_img threshold (i + length ps) qs
       (check_spaces processed_img threshold i ps st)"
  by (induction ps arbitrary: i st) simp_all

lemma nth_window: "i < k \<Longrightarrow> a + i < length xs \<Longrightarrow> take k (drop a xs) ! i = xs ! (a + i)"
  by simp

lemma window_index_set:
  "(\<lambda>i. a + i) ` {i. i < length (take k (drop a xs)) \<and> P (take k (drop a xs) ! i)} =
     {j. a \<le> j \<and> j < a + k \<and> j < length xs \<and> P (xs ! j)}"
proof (rule set_eqI, rule iffI)
  fix j
  assume "j \<in> (\<lambda>i. a + i) ` {i. i < length (take k (drop a xs)) \<and> P (take k (drop a xs) ! i)}"
  then obtain i where i: "j = a + i" "i < length (take k (drop a xs))" "P (take k (drop a xs) ! i)"
    by blast
  then have "i < k" "a + i < length xs" by auto
  then show "j \<in> {j. a \<le> j \<and> j < a + k \<and> j < length xs \<and> P (xs ! j)}"
    using i by simp
next
  fix j
  assume "j \<in> {j. a \<le> j \<and> j < a + k \<and> j < length xs \<and> P (xs ! j)}"
  then have j: "a \<le> j" "j < a + k" "j < length xs" "P (xs ! j)" by auto
  then have "j - a < length (take k (drop a xs))" "P (take k (drop a xs) ! (j - a))" "j = a + (j - a)"
    by auto
  then show "j \<in> (\<lambda>i. a + i) ` {i. i < length (take k (drop a xs)) \<and> P (take k (drop a xs) ! i)}"
    by blast
qed

lemma count_window:
  "length (filter P (take k (drop a xs))) = card {j. a \<le> j \<and> j < a + k \<and> j < length xs \<and> P (xs ! j)}"
proof -
  have "length (filter P (take k (drop a xs))) =
        card {i. i < length (take k (drop a xs)) \<and> P (take k (drop a xs) ! i)}"
    by (rule length_filter_conv_card)
  also have "\<dots> = card ((\<lambda>i. a + i) ` {i. i < length (take k (drop a xs)) \<and> P (take k (drop a xs) ! i)})"
    by (rule card_image [symmetric]) simp
  finally show ?thesis by (simp only: window_index_set)
qed

lemma sum_window:
  "sum_list (map f (take k (drop a xs))) = (\<Sum>j \<in> {j. a \<le> j \<and> j < a + k \<and> j < length xs}. f (xs ! j))"
proof -
  let ?ys = "take k (drop a xs)"
  have img: "{j. a \<le> j \<and> j < a + k \<and> j < length xs} = (\<lambda>i. a + i) ` {0..<length ?ys}"
  proof (rule set_eqI, rule iffI)
    fix j assume "j \<in> {j. a \<le> j \<and> j < a + k \<and> j < length xs}"
    then have "j - a \<in> {0..<length ?ys}" "j = a + (j - a)" by auto
    then show "j \<in> (\<lambda>i. a + i) ` {0..<length ?ys}" by blast
  next
    fix j assume "j \<in> (\<lambda>i. a + i) ` {0..<length ?ys}"
    then show "j \<in> {j. a \<le> j \<and> j < a + k \<and> j < length xs}" by auto
  qed
  have "(\<Sum>j \<in> {j. a \<le> j \<and> j < a + k \<and> j < length xs}. f (xs ! j)) =
        (\<Sum>i = 0..<length ?ys. f (?ys ! i))"
  proof (rule sum.reindex_cong [where l = "\<lambda>i. a + i"])
    show "inj_on (\<lambda>i. a + i) {0..<length ?ys}" by simp
    show "{j. a \<le> j \<and> j < a + k \<and> j < length xs} = (\<lambda>i. a + i) ` {0..<length ?ys}"
      by (rule img)
    show "f (xs ! (a + i)) = f (?ys ! i)" if "i \<in> {0..<length ?ys}" for i
    proof -
      have "i < k" "a \<le> length xs" using that by auto
      then show ?thesis by simp
    qed
  qed
  also have "\<dots> = sum_list (map f ?ys)"
    by (simp add: sum_list_sum_nth)
  finally show ?thesis by simp
qed

lemma py_slice_window:
  "0 \<le> a \<Longrightarrow> a \<le> b \<Longrightarrow>
   py_slice a b xs = take (nat b - nat a) (drop (nat a) xs)"
proof -
  assume a: "0 \<le> a" "a \<le> b"
  let ?n = "length xs"
  have "take (min (nat b) ?n - min (nat a) ?n) (drop (min (nat a) ?n) xs) =
        take (nat b - nat a) (drop (nat a) xs)"
  proof (cases "nat a \<le> ?n")
    case True
    then have m: "min (nat a) ?n = nat a" by simp
    show ?thesis
    proof (cases "nat b \<le> ?n")
      case True
      then show ?thesis by (simp add: m)
    next
      case False
      then have "min (nat b) ?n = ?n" by simp
      then show ?thesis using False by (simp add: m)
    qed
  next
    case False
    then show ?thesis by simp
  qed
  then show ?thesis using a by (simp add: py_slice_def py_bound_def)
qed


lemma region_count_pixels:
  assumes "0 \<le> x" "0 \<le> y" "0 \<le> w" "0 \<le> h"
  shows "region_count processed_img (x, y, w, h) =
     int (card {(r, c). y \<le> int r \<and> int r < y + h \<and> x \<le> int c \<and> int c < x + w \<and>
                        r < length processed_img \<and> c < length (processed_img ! r) \<and>
                        processed_img ! r ! c \<noteq> 0})"
proof -
  let ?X = "nat x" and ?Y = "nat y"
  let ?W = "nat (x + w) - nat x" and ?H = "nat (y + h) - nat y"
  let ?R = "{r. ?Y \<le> r \<and> r < ?Y + ?H \<and> r < length processed_img}"
  let ?C = "\<lambda>r. {c. ?X \<le> c \<and> c < ?X + ?W \<and> c < length (processed_img ! r) \<and>
                      processed_img ! r ! c \<noteq> 0}"
  have rows: "py_slice y (y + h) processed_img = take ?H (drop ?Y processed_img)"
    using assms by (simp add: py_slice_window)
  have cols: "py_slice x (x + w) row = take ?W (drop ?X row)" for row :: "nat list"
    using assms by (simp add: py_slice_window)
  have "region_count processed_img (x, y, w, h) =
        int (sum_list (map (\<lambda>row. length (filter (\<lambda>p. p \<noteq> 0) (take ?W (drop ?X row))))
                           (take ?H (drop ?Y processed_img))))"
    by (simp add: region_count_def countNonZero_def rows cols o_def)
  also have "\<dots> = int (\<Sum>r \<in> ?R. length (filter (\<lambda>p. p \<noteq> 0) (take ?W (drop ?X (processed_img ! r)))))"
    by (simp only: sum_window)
  also have "\<dots> = int (\<Sum>r \<in> ?R. card (?C r))"
    by (simp only: count_window)
  also have "(\<Sum>r \<in> ?R. card (?C r)) = card (SIGMA r:?R. ?C r)"
    by (rule card_SigmaI [symmetric]) simp_all
  also have "(SIGMA r:?R. ?C r) =
      {(r, c). y \<le> int r \<and> int r < y + h \<and> x \<le> int c \<and> int c < x + w \<and>
                        r < length processed_img \<and> c < length (processed_img ! r) \<and>
                        processed_img ! r ! c \<noteq> 0}"
    using assms by auto
  finally show ?thesis .
qed

subsection \<open>Frame differencing\<close>

lemma add_contours_matches:
  "snd (add_contours mw mh cs (f, ms)) = ms @ contour_centroids mw mh cs"
  by (induction mw mh cs "(f, ms)" arbitrary: f ms rule: add_contours.induct)
     (simp_all add: contour_centroids_def contour_valid_def Let_def)

lemma add_contours_frame:
  "fst (add_contours mw mh cs (f, ms)) = f\<lparr>drawn := drawn f @ contour_marks mw mh cs\<rparr>"
  by (induction mw mh cs "(f, ms)" arbitrary: f ms rule: add_contours.induct)
     (simp_all add: contour_marks_def contour_valid_def Let_def draw_def)

lemma count_crossed_eq:
  "count_crossed line_y offset ms (rem, n) =
     (rem @ [c \<leftarrow> ms. \<not> crossing line_y offset (snd c)],
      n + int (length [c \<leftarrow> ms. crossing line_y offset (snd c)]))"
  by (induction line_y offset ms "(rem, n)" arbitrary: rem n rule: count_crossed.induct) simp_all

lemma traditional_result:
  "snd (detect_vehicles_traditional frame1 contours mw mh line_height offset matches vc) =
     ([c \<leftarrow> matches @ contour_centroids mw mh contours.
          \<not> crossing (line_position line_height frame1) offset (snd c)],
      vc + int (length [c \<leftarrow> matches @ contour_centroids mw mh contours.
          crossing (line_position line_height frame1) offset (snd c)]))"
proof -
  obtain f2 nm where a: "add_contours mw mh contours
      (draw (Line (0, line_position line_height frame1) (int (shape1 frame1), line_position line_height frame1) green) frame1, matches) = (f2, nm)"
    by (cases "add_contours mw mh contours
      (draw (Line (0, line_position line_height frame1) (int (shape1 frame1), line_position line_height frame1) green) frame1, matches)")
  have "snd (add_contours mw mh contours
      (draw (Line (0, line_position line_height frame1) (int (shape1 frame1), line_position line_height frame1) green) frame1, matches))
       = matches @ contour_centroids mw mh contours"
    by (rule add_contours_matches)
  then have nm: "nm = matches @ contour_centroids mw mh contours"
    using a by simp
  show ?thesis
    by (simp add: detect_vehicles_traditional_def Let_def a count_crossed_eq nm del: filter_append)
qed




subsection \<open>Detector-based counting\<close>

lemma near_self: "near c c"
  by (simp add: near_def sq_dist_def)

lemma near_iff_norm: "near m c \<longleftrightarrow> sqrt (real_of_int (sq_dist m c)) < 50"
proof -
  have "sqrt (real_of_int (sq_dist m c)) < sqrt 2500 \<longleftrightarrow> real_of_int (sq_dist m c) < 2500"
    by (rule real_sqrt_less_iff)
  moreover have "sqrt 2500 = (50::real)"
    by (rule real_sqrt_unique) simp_all
  ultimately show ?thesis by (simp add: near_def)
qed

lemma count_new_matches:
  "set (fst (count_new line_y offset cs (ms, n))) =
     set ms \<union> set [c \<leftarrow> cs. crossing line_y offset (snd c)]"
proof (induction cs arbitrary: ms n)
  case Nil
  show ?case by simp
next
  case (Cons c cs)
  show ?case
  proof (cases "crossing line_y offset (snd c)")
    case True
    note cr = this
    show ?thesis
    proof (cases "c \<in> set ms")
      case True
      then show ?thesis using cr Cons.IH [of ms n] by auto
    next
      case False
      then show ?thesis using cr Cons.IH [of "ms @ [c]" "n + 1"] by auto
    qed
  next
    case False
    then show ?thesis using Cons.IH [of ms n] by auto
  qed
qed



lemma count_new_counter:
  "snd (count_new line_y offset cs (ms, n)) =
     n + int (card (set [c \<leftarrow> cs. crossing line_y offset (snd c)] - set ms))"
proof (induction cs arbitrary: ms n)
  case Nil
  show ?case by simp
next
  case (Cons c cs)
  let ?A = "set [c \<leftarrow> cs. crossing line_y offset (snd c)]"
  show ?case
  proof (cases "crossing line_y offset (snd c)")
    case False
    then show ?thesis using Cons.IH [of ms n] by simp
  next
    case True
    note cr = this
    show ?thesis
    proof (cases "c \<in> set ms")
      case True
      then have "insert c ?A - set ms = ?A - set ms" by blast
      then show ?thesis using True cr Cons.IH [of ms n] by simp
    next
      case False
      have eq: "insert c ?A - set ms = insert c (?A - set (ms @ [c]))"
        using False by auto
      have "card (insert c (?A - set (ms @ [c]))) = Suc (card (?A - set (ms @ [c])))"
        by (rule card_insert_disjoint) simp_all
      then have "card (insert c ?A - set ms) = Suc (card (?A - set (ms @ [c])))"
        using eq by simp
      then show ?thesis using False cr Cons.IH [of "ms @ [c]" "n + 1"] by simp
    qed
  qed
qed


lemma count_new_mono: "n \<le> snd (count_new line_y offset cs (ms, n))"
  by (simp add: count_new_counter)

lemma py_index_valid: "valid_label cls l \<Longrightarrow> \<exists>name. py_index cls l = Inr name"
  by (simp add: py_index_def valid_label_def)

lemma py_index_invalid: "\<not> valid_label cls l \<Longrightarrow> py_index cls l = Inl IndexError"
  by (auto simp add: py_index_def valid_label_def)

lemma count_new_mono_pair:
  "count_new line_y offset cs (ms, n) = (ms', n') \<Longrightarrow> n \<le> n'"
  using count_new_mono [of n line_y offset cs ms] by simp

lemma cv_draw_returns: "cv_draw calls_return d f = Inr (draw d f)"
  by (simp add: cv_draw_def calls_return_def)

lemma cv_draw_drawn:
  "cv_draw l d f = Inr f' \<Longrightarrow> drawn f' = drawn f @ [d]"
  by (auto simp add: cv_draw_def draw_def split: if_splits)

lemma any_near_returns: "any_near calls_return m cs = Inr (list_ex (near m) cs)"
  by (induction cs) (simp_all add: calls_return_def)

lemma prune_returns:
  "prune calls_return cur ms = Inr (filter (\<lambda>m. list_ex (near m) cur) ms)"
  by (induction ms) (simp_all add: any_near_returns)

lemma process_detections_ok:
  "\<forall>det \<in> set ds. valid_label (classes d) (det_label det) \<Longrightarrow>
   snd (process_detections calls_return fmt d ds f cur) = Inr (cur @ map box_centroid ds)"
proof (induction ds arbitrary: f cur)
  case Nil
  show ?case by simp
next
  case (Cons det ds)
  obtain x1 y1 x2 y2 score label where det: "det = (x1, y1, x2, y2, score, label)"
    by (cases det) auto
  have "valid_label (classes d) label"
    using Cons.prems by (simp add: det det_label_def)
  then obtain name where nm: "py_index (classes d) label = Inr name"
    using py_index_valid by blast
  show ?case
    using Cons.IH Cons.prems by (simp add: det nm Let_def cv_draw_returns)
qed

lemma process_detections_raises:
  "\<exists>det \<in> set ds. \<not> valid_label (classes d) (det_label det) \<Longrightarrow>
   snd (process_detections calls_return fmt d ds f cur) = Inl IndexError"
proof (induction ds arbitrary: f cur)
  case Nil
  then show ?case by simp
next
  case (Cons det ds)
  obtain x1 y1 x2 y2 score label where det: "det = (x1, y1, x2, y2, score, label)"
    by (cases det) auto
  show ?case
  proof (cases "valid_label (classes d) label")
    case False
    then show ?thesis by (simp add: det Let_def py_index_invalid cv_draw_returns)
  next
    case True
    then obtain name where nm: "py_index (classes d) label = Inr name"
      using py_index_valid by blast
    have "\<exists>det \<in> set ds. \<not> valid_label (classes d) (det_label det)"
      using Cons.prems True by (simp add: det det_label_def)
    then show ?thesis using Cons.IH by (simp add: det nm Let_def cv_draw_returns)
  qed
qed

lemma process_detections_drawn:
  "\<exists>marks. drawn (fst (process_detections l fmt d ds f cur)) = drawn f @ marks"
proof (induction ds arbitrary: f cur)
  case Nil
  show ?case by simp
next
  case (Cons det ds)
  obtain x1 y1 x2 y2 score label where det: "det = (x1, y1, x2, y2, score, label)"
    by (cases det) auto
  let ?c = "box_centroid (x1, y1, x2, y2, score, label)"
  show ?case
  proof (cases "cv_draw l (Rectangle (x1, y1) (x2, y2) green) f")
    case (Inl e)
    then show ?thesis by (simp add: det)
  next
    case f1: (Inr f1)
    have d1: "drawn f1 = drawn f @ [Rectangle (x1, y1) (x2, y2) green]"
      using f1 by (rule cv_draw_drawn)
    show ?thesis
    proof (cases "cv_draw l (Circle ?c 5 red) f1")
      case (Inl e)
      then show ?thesis by (simp add: det f1 d1 Let_def)
    next
      case f2: (Inr f2)
      have d2: "drawn f2 = drawn f1 @ [Circle ?c 5 red]"
        using f2 by (rule cv_draw_drawn)
      show ?thesis
      proof (cases "py_index (classes d) label")
        case (Inl e)
        then show ?thesis by (simp add: det f1 f2 d1 d2 Let_def)
      next
        case nm: (Inr name)
        show ?thesis
        proof (cases "cv_draw l (PutText (name @ '': '' @ fmt score) (x1, y1 - 10) green) f2")
          case (Inl e)
          then show ?thesis by (simp add: det f1 f2 nm d1 d2 Let_def)
        next
          case f3: (Inr f3)
          have d3: "drawn f3 = drawn f2 @ [PutText (name @ '': '' @ fmt score) (x1, y1 - 10) green]"
            using f3 by (rule cv_draw_drawn)
          obtain marks where
            "drawn (fst (process_detections l fmt d ds f3 (cur @ [?c]))) = drawn f3 @ marks"
            using Cons.IH by blast
          then show ?thesis using f3 by (simp add: det f1 f2 nm d1 d2 d3 Let_def)
        qed
      qed
    qed
  qed
qed

lemma ml_collect_detector_exn:
  "detect_vehicles d frame = Inl e \<Longrightarrow> ml_collect l fmt d lh frame = (frame, Inl e)"
  by (simp add: ml_collect_def)

lemma ml_collect_drawn:
  "\<exists>marks. drawn (fst (ml_collect l fmt d lh frame)) = drawn frame @ marks"
proof (cases "detect_vehicles d frame")
  case (Inl e)
  then show ?thesis by (simp add: ml_collect_def)
next
  case (Inr dets)
  let ?mark = "Line (0, line_position lh frame) (int (shape1 frame), line_position lh frame) green"
  show ?thesis
  proof (cases "cv_draw l ?mark frame")
    case (Inl e)
    then show ?thesis by (simp add: ml_collect_def Inr Let_def)
  next
    case f1: (Inr f1)
    have d1: "drawn f1 = drawn frame @ [?mark]"
      using f1 by (rule cv_draw_drawn)
    obtain f2 r where pd: "process_detections l fmt d dets f1 [] = (f2, r)"
      by (cases "process_detections l fmt d dets f1 []")
    obtain marks where "drawn (fst (process_detections l fmt d dets f1 [])) = drawn f1 @ marks"
      using process_detections_drawn by blast
    then have "drawn f2 = drawn frame @ ?mark # marks"
      using pd d1 by simp
    then show ?thesis
      by (cases r) (simp_all add: ml_collect_def Inr Let_def f1 pd)
  qed
qed

lemma ml_collect_ok:
  assumes "detect_vehicles d frame = Inr dets"
    and "\<forall>det \<in> set dets. valid_label (classes d) (det_label det)"
  shows "snd (ml_collect calls_return fmt d lh frame) =
           Inr (line_position lh frame, map box_centroid dets)"
proof -
  let ?f1 = "draw (Line (0, line_position lh frame) (int (shape1 frame), line_position lh frame) green) frame"
  obtain f2 r where pd: "process_detections calls_return fmt d dets ?f1 [] = (f2, r)"
    by (cases "process_detections calls_return fmt d dets ?f1 []")
  have "snd (process_detections calls_return fmt d dets ?f1 []) = Inr ([] @ map box_centroid dets)"
    using assms(2) by (rule process_detections_ok)
  then have r: "r = Inr (map box_centroid dets)" using pd by simp
  show ?thesis
    by (simp add: ml_collect_def assms(1) Let_def cv_draw_returns pd r)
qed

lemma ml_collect_line:
  assumes "detect_vehicles d frame = Inr dets"
  shows "\<exists>rest. drawn (fst (ml_collect calls_return fmt d lh frame)) =
     drawn frame @ Line (0, line_position lh frame) (int (shape1 frame), line_position lh frame) green # rest"
proof -
  let ?f1 = "draw (Line (0, line_position lh frame) (int (shape1 frame), line_position lh frame) green) frame"
  obtain f2 r where pd: "process_detections calls_return fmt d dets ?f1 [] = (f2, r)"
    by (cases "process_detections calls_return fmt d dets ?f1 []")
  obtain marks where "drawn (fst (process_detections calls_return fmt d dets ?f1 [])) = drawn ?f1 @ marks"
    using process_detections_drawn by blast
  then have "drawn f2 = drawn frame @ Line (0, line_position lh frame) (int (shape1 frame), line_position lh frame) green # marks"
    using pd by (simp add: draw_simps)
  then show ?thesis
    by (cases r) (simp_all add: ml_collect_def assms Let_def cv_draw_returns pd)
qed

lemma ml_try_collect_exn:
  assumes "snd (ml_collect l fmt d lh frame) = Inl e"
  shows "ml_try l fmt d vc lh off \<lparr>frame_obj = frame, matches_obj = matches\<rparr> =
           (\<lparr>frame_obj = fst (ml_collect l fmt d lh frame), matches_obj = matches\<rparr>, Inl e)"
proof -
  obtain f2 r where c: "ml_collect l fmt d lh frame = (f2, r)"
    by (cases "ml_collect l fmt d lh frame")
  then have "r = Inl e" using assms by simp
  then show ?thesis by (simp add: ml_try_def c)
qed

lemma ml_try_frame_drawn:
  "\<exists>marks. drawn (frame_obj (fst (ml_try l fmt d vc lh off \<lparr>frame_obj = frame, matches_obj = matches\<rparr>))) =
     drawn frame @ marks"
proof -
  obtain f2 r where c: "ml_collect l fmt d lh frame = (f2, r)"
    by (cases "ml_collect l fmt d lh frame")
  obtain marks where "drawn (fst (ml_collect l fmt d lh frame)) = drawn frame @ marks"
    using ml_collect_drawn by blast
  then have f2: "drawn f2 = drawn frame @ marks" using c by simp
  show ?thesis
  proof (cases r)
    case (Inl e)
    then show ?thesis using f2 by (simp add: ml_try_def c)
  next
    case (Inr p)
    obtain line_y cur where p: "p = (line_y, cur)" by (cases p)
    obtain ms' n' where cn: "count_new line_y off cur (matches, vc) = (ms', n')"
      by (cases "count_new line_y off cur (matches, vc)")
    show ?thesis
    proof (cases "prune l cur ms'")
      case (Inl e)
      then show ?thesis using f2 by (simp add: ml_try_def c Inr p cn Let_def)
    next
      case pr: (Inr nm)
      show ?thesis
      proof (cases "cv_draw l (TextRect (''Vehicle Count: '' @ str_int n') (10, 30)) f2")
        case (Inl e)
        then show ?thesis using f2 by (simp add: ml_try_def c Inr p cn pr Let_def)
      next
        case f3: (Inr f3)
        have "drawn f3 = drawn f2 @ [TextRect (''Vehicle Count: '' @ str_int n') (10, 30)]"
          using f3 by (rule cv_draw_drawn)
        then show ?thesis using f2 f3 by (simp add: ml_try_def c Inr p cn pr Let_def)
      qed
    qed
  qed
qed

lemma ml_try_counter_mono:
  "ml_try l fmt d vc lh off st = (st', Inr (nm, nc)) \<Longrightarrow> vc \<le> nc"
  by (auto simp add: ml_try_def Let_def split: sum.splits prod.splits dest: count_new_mono_pair)

lemma ml_try_exn_counter:
  "snd (ml_try l fmt d vc lh off \<lparr>frame_obj = frame, matches_obj = matches\<rparr>) = Inl e \<Longrightarrow>
   snd (snd (detect_vehicles_ml l fmt frame d matches vc lh off)) = vc"
  by (cases "ml_try l fmt d vc lh off \<lparr>frame_obj = frame, matches_obj = matches\<rparr>")
     (simp add: detect_vehicles_ml_def)

lemma ml_try_raises_iff:
  "(\<exists>e. snd (ml_try calls_return fmt d vc lh off st) = Inl e) \<longleftrightarrow>
     (\<exists>e. detect_vehicles d (frame_obj st) = Inl e) \<or>
     (\<exists>dets. detect_vehicles d (frame_obj st) = Inr dets \<and>
        (\<exists>det \<in> set dets. \<not> valid_label (classes d) (det_label det)))"
proof (cases "detect_vehicles d (frame_obj st)")
  case (Inl e)
  then show ?thesis by (simp add: ml_try_def ml_collect_def)
next
  case (Inr dets)
  let ?f1 = "draw (Line (0, line_position lh (frame_obj st))
                 (int (shape1 (frame_obj st)), line_position lh (frame_obj st)) green) (frame_obj st)"
  obtain f2 r where pd: "process_detections calls_return fmt d dets ?f1 [] = (f2, r)"
    by (cases "process_detections calls_return fmt d dets ?f1 []")
  show ?thesis
  proof (cases "\<forall>det \<in> set dets. valid_label (classes d) (det_label det)")
    case True
    then have "snd (process_detections calls_return fmt d dets ?f1 []) = Inr ([] @ map box_centroid dets)"
      by (rule process_detections_ok)
    then have r: "r = Inr (map box_centroid dets)" using pd by simp
    show ?thesis using True
      by (simp add: ml_try_def ml_collect_def Inr Let_def cv_draw_returns prune_returns pd r
          split: prod.splits)
  next
    case False
    then have "snd (process_detections calls_return fmt d dets ?f1 []) = Inl IndexError"
      using process_detections_raises by blast
    then have r: "r = Inl IndexError" using pd by simp
    show ?thesis using False
      by (simp add: ml_try_def ml_collect_def Inr Let_def cv_draw_returns pd r)
  qed
qed

lemma ml_success:
  assumes det: "detect_vehicles d frame = Inr dets"
    and ok: "\<forall>det \<in> set dets. valid_label (classes d) (det_label det)"
  shows "snd (detect_vehicles_ml calls_return fmt frame d matches vc lh off) =
     (filter (\<lambda>m. list_ex (near m) (map box_centroid dets))
        (fst (count_new (line_position lh frame) off (map box_centroid dets) (matches, vc))),
      snd (count_new (line_position lh frame) off (map box_centroid dets) (matches, vc)))"
proof -
  obtain f2 r where c: "ml_collect calls_return fmt d lh frame = (f2, r)"
    by (cases "ml_collect calls_return fmt d lh frame")
  have "snd (ml_collect calls_return fmt d lh frame) =
           Inr (line_position lh frame, map box_centroid dets)"
    using det ok by (rule ml_collect_ok)
  then have r: "r = Inr (line_position lh frame, map box_centroid dets)" using c by simp
  obtain ms' n' where cn:
    "count_new (line_position lh frame) off (map box_centroid dets) (matches, vc) = (ms', n')"
    by (cases "count_new (line_position lh frame) off (map box_centroid dets) (matches, vc)")
  show ?thesis
    by (simp add: detect_vehicles_ml_def ml_try_def c r cn Let_def prune_returns cv_draw_returns)
qed

lemma ml_drawn_line:
  assumes det: "detect_vehicles d frame = Inr dets"
  shows "\<exists>rest. drawn (fst (detect_vehicles_ml calls_return fmt frame d matches vc lh off)) =
     drawn frame @ Line (0, line_position lh frame) (int (shape1 frame), line_position lh frame) green # rest"
proof -
  obtain f2 r where c: "ml_collect calls_return fmt d lh frame = (f2, r)"
    by (cases "ml_collect calls_return fmt d lh frame")
  obtain rest where "drawn (fst (ml_collect calls_return fmt d lh frame)) =
     drawn frame @ Line (0, line_position lh frame) (int (shape1 frame), line_position lh frame) green # rest"
    using ml_collect_line [OF det] by blast
  then have f2: "drawn f2 =
     drawn frame @ Line (0, line_position lh frame) (int (shape1 frame), line_position lh frame) green # rest"
    using c by simp
  show ?thesis
  proof (cases r)
    case (Inl e)
    then show ?thesis using f2 by (simp add: detect_vehicles_ml_def ml_try_def c)
  next
    case (Inr p)
    obtain line_y cur where p: "p = (line_y, cur)" by (cases p)
    obtain ms' n' where cn: "count_new line_y off cur (matches, vc) = (ms', n')"
      by (cases "count_new line_y off cur (matches, vc)")
    show ?thesis using f2
      by (simp add: detect_vehicles_ml_def ml_try_def c Inr p cn Let_def prune_returns
          cv_draw_returns draw_simps)
  qed
qed

lemma crossing_in_pruned:
  assumes "c \<in> set cur" and "crossing ly off (snd c)"
  shows "c \<in> set (filter (\<lambda>m. list_ex (near m) cur) (fst (count_new ly off cur (ms, n))))"
proof -
  have "c \<in> set (fst (count_new ly off cur (ms, n)))"
    using assms by (simp add: count_new_matches)
  moreover have "list_ex (near c) cur"
    unfolding list_ex_iff using near_self [of c] assms(1) by (rule bexI)
  ultimately show ?thesis by simp
qed

lemma count_new_all_known:
  assumes "\<forall>c \<in> set cs. crossing ly off (snd c) \<longrightarrow> c \<in> set ms"
  shows "snd (count_new ly off cs (ms, n)) = n"
proof -
  have "set [c \<leftarrow> cs. crossing ly off (snd c)] - set ms = {}"
    using assms by auto
  then show ?thesis by (simp add: count_new_counter)
qed


section \<open>The claims\<close>

text \<open>
  Claim C1. A region that passes the bounds check is drawn red (occupied) exactly when
  its count of non-zero mask pixels is at least the threshold, and green (free) with
  \<open>space_counter\<close> raised by one exactly when the count is below the threshold; a
  count equal to the threshold is occupied. The counter returned by
  \<open>check_parking_space\<close> is the number of in-bounds regions whose count is below the
  threshold. The count is the number of mask positions inside the rectangle that hold
  a non-zero value.
\<close>

theorem check_parking_space_threshold:
  assumes "in_bounds processed_img (x, y, w, h)"
  shows "space_step processed_img threshold i (x, y, w, h) (img, sc) =
           (img\<lparr>drawn := drawn img @
                [PutText (str_nat i) (x + 5, y + 15) (255, 255, 0),
                 Rectangle (x, y) (x + w, y + h)
                   (if threshold \<le> region_count processed_img (x, y, w, h) then red else green),
                 TextRect (str_int (region_count processed_img (x, y, w, h))) (x, y + h - 3)]\<rparr>,
            if threshold \<le> region_count processed_img (x, y, w, h) then sc else sc + 1)
         \<and> snd (check_parking_space processed_img img0 ps threshold) =
             int (length [r \<leftarrow> ps. in_bounds processed_img r \<and>
                                   region_count processed_img r < threshold])
         \<and> (0 \<le> w \<and> 0 \<le> h \<longrightarrow>
              region_count processed_img (x, y, w, h) =
                int (card {(r, c). y \<le> int r \<and> int r < y + h \<and> x \<le> int c \<and> int c < x + w \<and>
                                   r < length processed_img \<and> c < length (processed_img ! r) \<and>
                                   processed_img ! r ! c \<noteq> 0}))"
proof -
  have a: "space_step processed_img threshold i (x, y, w, h) (img, sc) =
           (img\<lparr>drawn := drawn img @
                [PutText (str_nat i) (x + 5, y + 15) (255, 255, 0),
                 Rectangle (x, y) (x + w, y + h)
                   (if threshold \<le> region_count processed_img (x, y, w, h) then red else green),
                 TextRect (str_int (region_count processed_img (x, y, w, h))) (x, y + h - 3)]\<rparr>,
            if threshold \<le> region_count processed_img (x, y, w, h) then sc else sc + 1)"
    using space_step_scored [OF assms, of threshold i img sc] by (simp add: region_marks_def)
  have b: "snd (check_parking_space processed_img img0 ps threshold) =
             int (length [r \<leftarrow> ps. in_bounds processed_img r \<and>
                                   region_count processed_img r < threshold])"
    by (simp add: check_parking_space_def check_spaces_counter)
  have xy: "0 \<le> x" "0 \<le> y"
    using assms by (simp_all add: in_bounds_def)
  have c: "region_count processed_img (x, y, w, h) =
                int (card {(r, c). y \<le> int r \<and> int r < y + h \<and> x \<le> int c \<and> int c < x + w \<and>
                                   r < length processed_img \<and> c < length (processed_img ! r) \<and>
                                   processed_img ! r ! c \<noteq> 0})"
    if "0 \<le> w" "0 \<le> h"
    using xy that by (rule region_count_pixels)
  show ?thesis using a b c by blast
qed

theorem check_parking_space_threshold_witness:
  "in_bounds [[0,255,255,255],[0,255,255,0],[255,0,0,0]] (1, 0, 2, 2) \<and>
   region_count [[0,255,255,255],[0,255,255,0],[255,0,0,0]] (1, 0, 2, 2) = 4 \<and>
   int (card {(r, c). 0 \<le> int r \<and> int r < 0 + 2 \<and> 1 \<le> int c \<and> int c < 1 + 2 \<and>
                      r < length [[0,255,255,255],[0,255,255,0],[255,0,0,0::nat]] \<and>
                      c < length ([[0,255,255,255],[0,255,255,0],[255,0,0,0::nat]] ! r) \<and>
                      [[0,255,255,255],[0,255,255,0],[255,0,0,0::nat]] ! r ! c \<noteq> 0}) = 4 \<and>
   countNonZero [[0,255,255,255],[0,255,255,0],[255,0,0,0]] = 6 \<and>
   space_step [[0,255,255,255],[0,255,255,0],[255,0,0,0]] 4 0 (1, 0, 2, 2)
       (\<lparr>shape0 = 3, shape1 = 4, drawn = []\<rparr>, 0) =
     (\<lparr>shape0 = 3, shape1 = 4,
        drawn = [PutText ''0'' (6, 15) (255, 255, 0), Rectangle (1, 0) (3, 2) red,
                 TextRect ''4'' (1, - 1)]\<rparr>, 0) \<and>
   space_step [[0,255,255,255],[0,255,255,0],[255,0,0,0]] 5 0 (1, 0, 2, 2)
       (\<lparr>shape0 = 3, shape1 = 4, drawn = []\<rparr>, 0) =
     (\<lparr>shape0 = 3, shape1 = 4,
        drawn = [PutText ''0'' (6, 15) (255, 255, 0), Rectangle (1, 0) (3, 2) green,
                 TextRect ''4'' (1, - 1)]\<rparr>, 1) \<and>
   snd (check_parking_space [[0,255,255,255],[0,255,255,0],[255,0,0,0]]
          \<lparr>shape0 = 3, shape1 = 4, drawn = []\<rparr> [(1, 0, 2, 2), (0, 0, 3, 2), (2, 0, 2, 2)] 5) = 2"
proof -
  let ?M = "[[0,255,255,255],[0,255,255,0],[255,0,0,0]] :: mask"
  let ?F = "\<lparr>shape0 = 3, shape1 = 4, drawn = []\<rparr>"
  let ?ps = "[(1, 0, 2, 2), (0, 0, 3, 2), (2, 0, 2, 2)] :: region list"
  have b: "in_bounds ?M (1, 0, 2, 2)"
    by (simp add: in_bounds_def mask_shape0_def mask_shape1_def)
  have c: "region_count ?M (1, 0, 2, 2) = 4"
    by (simp add: region_count_def py_slice_def py_bound_def countNonZero_def)
  have t: "countNonZero ?M = 6"
    by (simp add: countNonZero_def)
  have s: "str_nat 0 = ''0''" "str_int 4 = ''4''"
    by (simp_all add: str_int_def str_nat.simps digit_char_def)
  have l: "[r \<leftarrow> ?ps. in_bounds ?M r \<and> region_count ?M r < 5] = [(1, 0, 2, 2), (0, 0, 3, 2)]"
    by (simp add: in_bounds_def region_count_def mask_shape0_def mask_shape1_def
        py_slice_def py_bound_def countNonZero_def)
  have nn: "(0::int) \<le> 2 \<and> (0::int) \<le> 2" by simp
  note occ = check_parking_space_threshold [OF b, of 4 0 ?F 0 ?F "[]", unfolded c s]
  note free = check_parking_space_threshold [OF b, of 5 0 ?F 0 ?F ?ps, unfolded c s l]
  have px: "int (card {(r, c). 0 \<le> int r \<and> int r < 0 + 2 \<and> 1 \<le> int c \<and> int c < 1 + 2 \<and>
                      r < length ?M \<and> c < length (?M ! r) \<and> ?M ! r ! c \<noteq> 0}) = 4"
    using free nn by simp
  show ?thesis
    using occ free b c t px by simp
qed

text \<open>
  Claim C2, as amended. When the \<open>try\<close> block of \<open>detect_vehicles_ml\<close> is left by an
  exception, the call returns the counter it was given. When the exception is raised
  in lines 64-92 (by the detector, by a drawing call or by \<open>classes[label]\<close>), the
  list \<open>matches\<close> is returned as it was passed in as well, together with the frame as
  drawn so far; when the detector itself raised, the frame is as it was passed in. In
  every case the returned frame is the frame passed in with drawings added.
\<close>

theorem detect_vehicles_ml_exception_passthrough:
  "(snd (ml_try l fmt ml_detector vehicle_counter line_height offset
           \<lparr>frame_obj = frame, matches_obj = matches\<rparr>) = Inl e \<longrightarrow>
      snd (snd (detect_vehicles_ml l fmt frame ml_detector matches vehicle_counter
                  line_height offset)) = vehicle_counter) \<and>
   (snd (ml_collect l fmt ml_detector line_height frame) = Inl e \<longrightarrow>
      detect_vehicles_ml l fmt frame ml_detector matches vehicle_counter line_height offset =
        (fst (ml_collect l fmt ml_detector line_height frame), matches, vehicle_counter)) \<and>
   (detect_vehicles ml_detector frame = Inl e \<longrightarrow>
      detect_vehicles_ml l fmt frame ml_detector matches vehicle_counter line_height offset =
        (frame, matches, vehicle_counter)) \<and>
   (\<exists>marks. drawn (fst (detect_vehicles_ml l fmt frame ml_detector matches vehicle_counter
                           line_height offset)) = drawn frame @ marks)"
proof -
  let ?st = "\<lparr>frame_obj = frame, matches_obj = matches\<rparr>"
  have a: "snd (snd (detect_vehicles_ml l fmt frame ml_detector matches vehicle_counter
                  line_height offset)) = vehicle_counter"
    if "snd (ml_try l fmt ml_detector vehicle_counter line_height offset ?st) = Inl e"
    using that by (rule ml_try_exn_counter)
  have b: "detect_vehicles_ml l fmt frame ml_detector matches vehicle_counter line_height offset =
        (fst (ml_collect l fmt ml_detector line_height frame), matches, vehicle_counter)"
    if "snd (ml_collect l fmt ml_detector line_height frame) = Inl e"
    using ml_try_collect_exn [OF that, of vehicle_counter offset matches]
    by (simp add: detect_vehicles_ml_def)
  have c: "detect_vehicles_ml l fmt frame ml_detector matches vehicle_counter line_height offset =
        (frame, matches, vehicle_counter)"
    if "detect_vehicles ml_detector frame = Inl e"
  proof -
    have "ml_collect l fmt ml_detector line_height frame = (frame, Inl e)"
      using that by (rule ml_collect_detector_exn)
    then show ?thesis using b by simp
  qed
  obtain st' r where t: "ml_try l fmt ml_detector vehicle_counter line_height offset ?st = (st', r)"
    by (cases "ml_try l fmt ml_detector vehicle_counter line_height offset ?st")
  obtain marks where
    "drawn (frame_obj (fst (ml_try l fmt ml_detector vehicle_counter line_height offset ?st))) =
       drawn frame @ marks"
    using ml_try_frame_drawn by blast
  then have m: "drawn (frame_obj st') = drawn frame @ marks"
    using t by simp
  have d: "\<exists>marks. drawn (fst (detect_vehicles_ml l fmt frame ml_detector matches vehicle_counter
                           line_height offset)) = drawn frame @ marks"
  proof (cases r)
    case (Inl e')
    then show ?thesis using m by (simp add: detect_vehicles_ml_def t)
  next
    case (Inr p)
    then show ?thesis using m by (cases p) (simp add: detect_vehicles_ml_def t)
  qed
  show ?thesis using a b c d by blast
qed

theorem detect_vehicles_ml_exception_passthrough_witness:
  "detect_vehicles_ml calls_return two_digits vga
      \<lparr>detect_vehicles = (\<lambda>f. Inl (DetectorError ''timeout'')), classes = [''background'', ''car'']\<rparr>
      [(7, 8)] 3 100 10 = (vga, [(7, 8)], 3) \<and>
   detect_vehicles_ml calls_return two_digits vga unknown_class [(7, 8)] 3 100 10 =
     (\<lparr>shape0 = 480, shape1 = 640,
        drawn = [Line (0, 100) (640, 100) green, Rectangle (0, 90) (10, 110) green,
                 Circle (5, 100) 5 red]\<rparr>, [(7, 8)], 3) \<and>
   snd (snd (detect_vehicles_ml text_rect_raises two_digits vga one_car [(7, 8)] 3 100 10)) = 3"
proof -
  let ?d = "\<lparr>detect_vehicles = (\<lambda>f. Inl (DetectorError ''timeout'')),
               classes = [''background'', ''car'']\<rparr> :: unit ml_detector"
  let ?F2 = "\<lparr>shape0 = 480, shape1 = 640,
        drawn = [Line (0, 100) (640, 100) green, Rectangle (0, 90) (10, 110) green,
                 Circle (5, 100) 5 red]\<rparr>"
  have h1: "detect_vehicles ?d vga = Inl (DetectorError ''timeout'')"
    by simp
  have h2: "ml_collect calls_return two_digits unknown_class 100 vga = (?F2, Inl IndexError)"
    by (simp add: ml_collect_def unknown_class_def vga_def cv_draw_def calls_return_def Let_def
        py_index_def box_centroid_def line_position_def draw_def)
  have h3: "snd (ml_try text_rect_raises two_digits one_car 3 100 10
                   \<lparr>frame_obj = vga, matches_obj = [(7, 8)]\<rparr>) =
              Inl (CvError (TextRect ''Vehicle Count: 4'' (10, 30)))"
    by (simp add: ml_try_def ml_collect_def one_car_def vga_def cv_draw_def text_rect_raises_def
        Let_def py_index_def box_centroid_def line_position_def draw_def crossing_def near_def
        sq_dist_def str_int_def str_nat.simps digit_char_def)
  show ?thesis
    using detect_vehicles_ml_exception_passthrough [where l = calls_return and fmt = two_digits
        and ml_detector = ?d and frame = vga and matches = "[(7, 8)]" and vehicle_counter = 3
        and line_height = 100 and offset = 10 and e = "DetectorError ''timeout''"]
      detect_vehicles_ml_exception_passthrough [where l = calls_return and fmt = two_digits
        and ml_detector = unknown_class and frame = vga and matches = "[(7, 8)]"
        and vehicle_counter = 3 and line_height = 100 and offset = 10 and e = IndexError]
      detect_vehicles_ml_exception_passthrough [where l = text_rect_raises and fmt = two_digits
        and ml_detector = one_car and frame = vga and matches = "[(7, 8)]"
        and vehicle_counter = 3 and line_height = 100 and offset = 10
        and e = "CvError (TextRect ''Vehicle Count: 4'' (10, 30))"]
    by (simp add: h1 h2 h3)
qed

text \<open>
  The claim as stated fails. With a library call that raises after the counting loop
  (\<open>cvzone.putTextRect\<close> of line 107, or \<open>np.linalg.norm\<close> of line 104) the list
  returned by the \<open>except\<close> branch holds the centroid that line 100 appended, and with
  a class outside \<open>classes\<close> the returned frame carries the line, the box and the
  centroid drawn before the exception.
\<close>

theorem detect_vehicles_ml_exception_changes_pool:
  "snd (ml_try text_rect_raises two_digits one_car 0 100 10
          \<lparr>frame_obj = vga, matches_obj = []\<rparr>) =
     Inl (CvError (TextRect ''Vehicle Count: 1'' (10, 30))) \<and>
   snd (detect_vehicles_ml text_rect_raises two_digits vga one_car [] 0 100 10) = ([(5, 100)], 0) \<and>
   snd (ml_try norm_call_raises two_digits one_car 0 100 10
          \<lparr>frame_obj = vga, matches_obj = []\<rparr>) =
     Inl (NumpyError (5, 100) (5, 100)) \<and>
   snd (detect_vehicles_ml norm_call_raises two_digits vga one_car [] 0 100 10) = ([(5, 100)], 0) \<and>
   snd (ml_try calls_return two_digits unknown_class 0 100 10
          \<lparr>frame_obj = vga, matches_obj = []\<rparr>) = Inl IndexError \<and>
   drawn (fst (detect_vehicles_ml calls_return two_digits vga unknown_class [] 0 100 10)) =
     [Line (0, 100) (640, 100) green, Rectangle (0, 90) (10, 110) green, Circle (5, 100) 5 red] \<and>
   drawn vga = []"
  by (simp add: detect_vehicles_ml_def ml_try_def ml_collect_def one_car_def unknown_class_def
      vga_def cv_draw_def text_rect_raises_def norm_call_raises_def calls_return_def Let_def
      py_index_def box_centroid_def line_position_def draw_def crossing_def near_def sq_dist_def
      str_int_def str_nat.simps digit_char_def)

text \<open>
  Claim C3. One call of \<open>detect_vehicles_traditional\<close> adds to the counter the number
  of centroids of the combined pool (the carried ones followed by those of the
  size-valid contours) whose y lies strictly inside the band; the returned pool is the
  combined pool without them, so a counted centroid is absent from it and every other
  one is kept.
\<close>

theorem detect_vehicles_traditional_counts_band:
  "let pool = matches @ contour_centroids min_contour_width min_contour_height contours;
       line_y = line_position line_height fr;
       result = detect_vehicles_traditional fr contours min_contour_width min_contour_height
                  line_height offset matches vehicle_counter;
       remaining = fst (snd result)
   in snd (snd result) = vehicle_counter + int (length [c \<leftarrow> pool. crossing line_y offset (snd c)]) \<and>
      remaining = [c \<leftarrow> pool. \<not> crossing line_y offset (snd c)] \<and>
      (\<forall>c \<in> set pool. crossing line_y offset (snd c) \<longrightarrow> c \<notin> set remaining) \<and>
      (\<forall>c \<in> set pool. \<not> crossing line_y offset (snd c) \<longrightarrow> c \<in> set remaining)"
  unfolding Let_def traditional_result by simp

theorem detect_vehicles_traditional_counts_band_witness:
  "snd (detect_vehicles_traditional \<lparr>shape0 = 480, shape1 = 640, drawn = []\<rparr>
          [(100, 80, 40, 40), (0, 0, 5, 5)] 20 20 100 10 [(50, 100), (60, 110), (70, 300)] 0) =
     ([(60, 110), (70, 300)], 2)"
proof -
  let ?F = "\<lparr>shape0 = 480, shape1 = 640, drawn = []\<rparr>"
  have p: "contour_centroids 20 20 [(100, 80, 40, 40), (0, 0, 5, 5)] = [(120, 100)]"
    by (simp add: contour_centroids_def contour_valid_def get_centroid_def)
  have l: "line_position 100 ?F = 100"
    by (simp add: line_position_def)
  note t = detect_vehicles_traditional_counts_band
    [where matches = "[(50, 100), (60, 110), (70, 300)]" and min_contour_width = 20
       and min_contour_height = 20 and contours = "[(100, 80, 40, 40), (0, 0, 5, 5)]"
       and line_height = 100 and fr = ?F and offset = 10 and vehicle_counter = 0,
     unfolded Let_def p l]
  have "detect_vehicles_traditional ?F [(100, 80, 40, 40), (0, 0, 5, 5)] 20 20 100 10
          [(50, 100), (60, 110), (70, 300)] 0 =
        (fst (detect_vehicles_traditional ?F [(100, 80, 40, 40), (0, 0, 5, 5)] 20 20 100 10
          [(50, 100), (60, 110), (70, 300)] 0), [(60, 110), (70, 300)], 2)"
    using t by (simp add: crossing_def prod_eq_iff)
  then show ?thesis by (metis snd_conv)
qed

text \<open>
  Claim C4. In a call of \<open>detect_vehicles_ml\<close> without exception (the detector
  returns, the labels are in \<open>classes\<close> and the library calls return) the counter grows by
  the number of distinct in-band centroids that are not in the carried pool, and
  every in-band centroid is in the returned pool. A second call with the same
  detections, the returned pool and the returned counter leaves the counter as it is.
  So a single in-band detection that is not in the carried pool is counted once over
  the two calls, and one that is already in the carried pool is not counted.
\<close>

theorem detect_vehicles_ml_no_recount:
  assumes "detect_vehicles ml_detector frame = Inr dets"
    and "detect_vehicles ml_detector frame' = Inr dets"
    and "shape0 frame' = shape0 frame"
    and "\<forall>det \<in> set dets. valid_label (classes ml_detector) (det_label det)"
  shows "let cur = map box_centroid dets;
             line_y = line_position line_height frame;
             r1 = detect_vehicles_ml calls_return fmt frame ml_detector matches vehicle_counter line_height offset;
             r2 = detect_vehicles_ml calls_return fmt frame' ml_detector (fst (snd r1)) (snd (snd r1))
                    line_height offset
         in snd (snd r1) = vehicle_counter +
               int (card (set [c \<leftarrow> cur. crossing line_y offset (snd c)] - set matches)) \<and>
            (\<forall>c \<in> set cur. crossing line_y offset (snd c) \<longrightarrow> c \<in> set (fst (snd r1))) \<and>
            snd (snd r2) = snd (snd r1) \<and>
            (\<forall>det. dets = [det] \<and> crossing line_y offset (snd (box_centroid det)) \<and>
                   box_centroid det \<notin> set matches \<longrightarrow>
                   snd (snd r1) = vehicle_counter + 1 \<and> snd (snd r2) = vehicle_counter + 1) \<and>
            (\<forall>det. dets = [det] \<and> box_centroid det \<in> set matches \<longrightarrow>
                   snd (snd r1) = vehicle_counter)"
proof -
  let ?cur = "map box_centroid dets"
  let ?ly = "line_position line_height frame"
  let ?r1 = "detect_vehicles_ml calls_return fmt frame ml_detector matches vehicle_counter line_height offset"
  let ?r2 = "detect_vehicles_ml calls_return fmt frame' ml_detector (fst (snd ?r1)) (snd (snd ?r1)) line_height offset"
  have ly: "line_position line_height frame' = ?ly"
    using assms(3) by (simp add: line_position_def)
  have r1: "snd ?r1 =
     (filter (\<lambda>m. list_ex (near m) ?cur) (fst (count_new ?ly offset ?cur (matches, vehicle_counter))),
      snd (count_new ?ly offset ?cur (matches, vehicle_counter)))"
    using assms(1) assms(4) by (rule ml_success)
  have a: "snd (snd ?r1) = vehicle_counter +
               int (card (set [c \<leftarrow> ?cur. crossing ?ly offset (snd c)] - set matches))"
    by (simp add: r1 count_new_counter)
  have b: "\<forall>c \<in> set ?cur. crossing ?ly offset (snd c) \<longrightarrow> c \<in> set (fst (snd ?r1))"
    unfolding r1 fst_conv using crossing_in_pruned by blast
  have "snd ?r2 =
     (filter (\<lambda>m. list_ex (near m) ?cur) (fst (count_new ?ly offset ?cur (fst (snd ?r1), snd (snd ?r1)))),
      snd (count_new ?ly offset ?cur (fst (snd ?r1), snd (snd ?r1))))"
    using ml_success [OF assms(2) assms(4), of fmt "fst (snd ?r1)" "snd (snd ?r1)" line_height offset]
    by (simp only: ly)
  then have "snd (snd ?r2) = snd (count_new ?ly offset ?cur (fst (snd ?r1), snd (snd ?r1)))"
    by simp
  also have "\<dots> = snd (snd ?r1)"
    using b by (rule count_new_all_known)
  finally have c: "snd (snd ?r2) = snd (snd ?r1)" .
  have d: "snd (snd ?r1) = vehicle_counter + 1 \<and> snd (snd ?r2) = vehicle_counter + 1"
    if "dets = [det]" "crossing ?ly offset (snd (box_centroid det))" "box_centroid det \<notin> set matches"
    for det
  proof -
    have "set [c \<leftarrow> ?cur. crossing ?ly offset (snd c)] - set matches = {box_centroid det}"
      using that by auto
    then have "snd (snd ?r1) = vehicle_counter + 1" using a by simp
    then show ?thesis using c by simp
  qed
  have e: "snd (snd ?r1) = vehicle_counter"
    if "dets = [det]" "box_centroid det \<in> set matches" for det
  proof -
    have "set [c \<leftarrow> ?cur. crossing ?ly offset (snd c)] - set matches = {}"
      using that by auto
    then show ?thesis using a by simp
  qed
  show ?thesis unfolding Let_def using a b c d e by blast
qed

theorem detect_vehicles_ml_no_recount_witness:
  "snd (detect_vehicles_ml calls_return (\<lambda>s::unit. ''0.90'') \<lparr>shape0 = 480, shape1 = 640, drawn = []\<rparr>
      \<lparr>detect_vehicles = (\<lambda>f. Inr [(0, 90, 10, 110, (), 1)]), classes = [''background'', ''car'']\<rparr>
      [] 0 100 10) = ([(5, 100)], 1) \<and>
   snd (detect_vehicles_ml calls_return (\<lambda>s::unit. ''0.90'') \<lparr>shape0 = 480, shape1 = 640, drawn = []\<rparr>
      \<lparr>detect_vehicles = (\<lambda>f. Inr [(0, 90, 10, 110, (), 1)]), classes = [''background'', ''car'']\<rparr>
      [(5, 100)] 1 100 10) = ([(5, 100)], 1)"
proof -
  let ?fmt = "\<lambda>s::unit. ''0.90''"
  let ?F = "\<lparr>shape0 = 480, shape1 = 640, drawn = []\<rparr>"
  let ?d = "\<lparr>detect_vehicles = (\<lambda>f. Inr [(0, 90, 10, 110, (), 1)]),
              classes = [''background'', ''car'']\<rparr> :: unit ml_detector"
  have a: "detect_vehicles ?d ?F = Inr [(0, 90, 10, 110, (), 1)]" by simp
  have s: "shape0 ?F = shape0 ?F" by simp
  have v: "\<forall>det \<in> set [(0, 90, 10, 110, (), 1)]. valid_label (classes ?d) (det_label det)"
    by (simp add: valid_label_def det_label_def)
  have r1: "snd (detect_vehicles_ml calls_return ?fmt ?F ?d [] 0 100 10) = ([(5, 100)], 1)"
    by (simp add: detect_vehicles_ml_def ml_try_def ml_collect_def cv_draw_def calls_return_def
        Let_def py_index_def box_centroid_def
        line_position_def crossing_def near_def sq_dist_def)
  have r2: "fst (snd (detect_vehicles_ml calls_return ?fmt ?F ?d [(5, 100)] 1 100 10)) = [(5, 100)]"
    by (simp add: detect_vehicles_ml_def ml_try_def ml_collect_def cv_draw_def calls_return_def
        Let_def py_index_def box_centroid_def
        line_position_def crossing_def near_def sq_dist_def)
  have "snd (snd (detect_vehicles_ml calls_return ?fmt ?F ?d [(5, 100)] 1 100 10)) = 1"
    using detect_vehicles_ml_no_recount [OF a a s v, where line_height = 100 and fmt = ?fmt
        and matches = "[]" and vehicle_counter = 0 and offset = 10] r1
    by (simp add: Let_def)
  then show ?thesis
    using r1 r2 by (simp add: prod_eq_iff)
qed

text \<open>
  Claim C5. The band test is \<open>line_y - offset < y < line_y + offset\<close> with strict
  inequalities: \<open>line_y\<close> itself is inside whenever the offset is positive, and
  \<open>line_y - offset\<close> and \<open>line_y + offset\<close> are outside. Both trackers count a single
  centroid exactly when it passes this test (for \<open>detect_vehicles_ml\<close>: in a call
  without exception).
\<close>

theorem crossing_band_open_interval:
  "(crossing line_y offset y \<longleftrightarrow> line_y - offset < y \<and> y < line_y + offset) \<and>
   (0 < offset \<longrightarrow> crossing line_y offset line_y) \<and>
   \<not> crossing line_y offset (line_y - offset) \<and>
   \<not> crossing line_y offset (line_y + offset) \<and>
   snd (snd (detect_vehicles_traditional fr [] min_contour_width min_contour_height
               line_height offset [(x, y)] vehicle_counter)) =
     (if line_position line_height fr - offset < y \<and>
         y < line_position line_height fr + offset
      then vehicle_counter + 1 else vehicle_counter) \<and>
   (detect_vehicles ml_detector frame = Inr [det] \<and>
    valid_label (classes ml_detector) (det_label det) \<longrightarrow>
    snd (snd (detect_vehicles_ml calls_return fmt frame ml_detector [] vehicle_counter line_height offset)) =
      (if line_position line_height frame - offset < snd (box_centroid det) \<and>
          snd (box_centroid det) < line_position line_height frame + offset
       then vehicle_counter + 1 else vehicle_counter))"
proof -
  have t: "snd (snd (detect_vehicles_traditional fr [] min_contour_width min_contour_height
               line_height offset [(x, y)] vehicle_counter)) =
     (if line_position line_height fr - offset < y \<and>
         y < line_position line_height fr + offset
      then vehicle_counter + 1 else vehicle_counter)"
    by (simp add: traditional_result contour_centroids_def crossing_def)
  have m: "snd (snd (detect_vehicles_ml calls_return fmt frame ml_detector [] vehicle_counter line_height offset)) =
      (if line_position line_height frame - offset < snd (box_centroid det) \<and>
          snd (box_centroid det) < line_position line_height frame + offset
       then vehicle_counter + 1 else vehicle_counter)"
    if d: "detect_vehicles ml_detector frame = Inr [det]"
      and v: "valid_label (classes ml_detector) (det_label det)"
  proof -
    have "\<forall>d \<in> set [det]. valid_label (classes ml_detector) (det_label d)"
      using v by simp
    from ml_success [OF d this, of fmt "[]" vehicle_counter line_height offset]
    show ?thesis by (simp add: crossing_def)
  qed
  show ?thesis using t m by (simp add: crossing_def)
qed

theorem crossing_band_open_interval_witness:
  "crossing 100 10 100 \<and> \<not> crossing 100 10 90 \<and> \<not> crossing 100 10 110 \<and>
   snd (snd (detect_vehicles_traditional \<lparr>shape0 = 480, shape1 = 640, drawn = []\<rparr> [] 20 20
               100 10 [(3, 100)] 0)) = 1 \<and>
   snd (snd (detect_vehicles_traditional \<lparr>shape0 = 480, shape1 = 640, drawn = []\<rparr> [] 20 20
               100 10 [(3, 90)] 0)) = 0 \<and>
   snd (snd (detect_vehicles_traditional \<lparr>shape0 = 480, shape1 = 640, drawn = []\<rparr> [] 20 20
               100 10 [(3, 110)] 0)) = 0 \<and>
   snd (snd (detect_vehicles_ml calls_return (\<lambda>s::unit. ''0.90'') \<lparr>shape0 = 480, shape1 = 640, drawn = []\<rparr>
      \<lparr>detect_vehicles = (\<lambda>f. Inr [(0, 90, 10, 110, (), 1)]), classes = [''background'', ''car'']\<rparr>
      [] 0 100 10)) = 1 \<and>
   snd (snd (detect_vehicles_ml calls_return (\<lambda>s::unit. ''0.90'') \<lparr>shape0 = 480, shape1 = 640, drawn = []\<rparr>
      \<lparr>detect_vehicles = (\<lambda>f. Inr [(0, 100, 10, 120, (), 1)]), classes = [''background'', ''car'']\<rparr>
      [] 0 100 10)) = 0"
proof -
  let ?fmt = "\<lambda>s::unit. ''0.90''"
  let ?F = "\<lparr>shape0 = 480, shape1 = 640, drawn = []\<rparr>"
  let ?d = "\<lparr>detect_vehicles = (\<lambda>f. Inr [(0, 90, 10, 110, (), 1)]),
              classes = [''background'', ''car'']\<rparr> :: unit ml_detector"
  let ?d' = "\<lparr>detect_vehicles = (\<lambda>f. Inr [(0, 100, 10, 120, (), 1)]),
              classes = [''background'', ''car'']\<rparr> :: unit ml_detector"
  have l: "line_position 100 ?F = 100"
    by (simp add: line_position_def)
  have v: "valid_label [''background'', ''car''] (det_label (a, b, c, d, (), 1))" for a b c d :: int
    by (simp add: valid_label_def det_label_def)
  have c: "snd (box_centroid (0, 90, 10, 110, (), 1)) = 100"
          "snd (box_centroid (0, 100, 10, 120, (), 1)) = 110"
    by (simp_all add: box_centroid_def)
  show ?thesis
    using crossing_band_open_interval [where line_y = 100 and offset = 10 and y = 100
          and fr = ?F and min_contour_width = 20 and min_contour_height = 20
          and line_height = 100 and x = 3 and vehicle_counter = 0 and ml_detector = ?d
          and frame = ?F and det = "(0, 90, 10, 110, (), 1)" and fmt = ?fmt]
      crossing_band_open_interval [where line_y = 100 and offset = 10 and y = 90
          and fr = ?F and min_contour_width = 20 and min_contour_height = 20
          and line_height = 100 and x = 3 and vehicle_counter = 0 and ml_detector = ?d'
          and frame = ?F and det = "(0, 100, 10, 120, (), 1)" and fmt = ?fmt]
      crossing_band_open_interval [where line_y = 100 and offset = 10 and y = 110
          and fr = ?F and min_contour_width = 20 and min_contour_height = 20
          and line_height = 100 and x = 3 and vehicle_counter = 0 and ml_detector = ?d
          and frame = ?F and det = "(0, 90, 10, 110, (), 1)" and fmt = ?fmt]
    by (simp add: l v c)
qed

text \<open>
  Claim C6. In a call of \<open>detect_vehicles_ml\<close> without exception (the detector
  returns, the labels are in \<open>classes\<close> and the library calls return) a carried centroid
  is in the returned pool exactly when some centroid of the current frame is at
  Euclidean distance below 50 from it; a centroid with no such neighbour is not in
  the returned pool, and with no detections the returned pool is empty.
\<close>

theorem detect_vehicles_ml_prunes_far:
  assumes "detect_vehicles ml_detector frame = Inr dets"
    and "\<forall>det \<in> set dets. valid_label (classes ml_detector) (det_label det)"
  shows "let cur = map box_centroid dets;
             pool = fst (snd (detect_vehicles_ml calls_return fmt frame ml_detector matches vehicle_counter
                                line_height offset))
         in (m \<in> set matches \<longrightarrow> (m \<in> set pool \<longleftrightarrow> (\<exists>c \<in> set cur. near m c))) \<and>
            ((\<forall>c \<in> set cur. \<not> near m c) \<longrightarrow> m \<notin> set pool) \<and>
            (dets = [] \<longrightarrow> pool = []) \<and>
            (near m c' \<longleftrightarrow> sqrt (real_of_int (sq_dist m c')) < 50)"
proof -
  let ?cur = "map box_centroid dets"
  let ?ms = "fst (count_new (line_position line_height frame) offset ?cur (matches, vehicle_counter))"
  let ?pool = "fst (snd (detect_vehicles_ml calls_return fmt frame ml_detector matches vehicle_counter
                                line_height offset))"
  have pool: "?pool = filter (\<lambda>m. list_ex (near m) ?cur) ?ms"
    using ml_success [OF assms, of fmt matches vehicle_counter line_height offset] by simp
  have a: "m \<in> set ?pool \<longleftrightarrow> (\<exists>c \<in> set ?cur. near m c)" if "m \<in> set matches"
    using that by (simp add: pool count_new_matches list_ex_iff)
  have b: "m \<notin> set ?pool" if "\<forall>c \<in> set ?cur. \<not> near m c"
    using that by (simp add: pool list_ex_iff)
  have c: "?pool = []" if "dets = []"
    using that by (simp add: pool)
  show ?thesis unfolding Let_def using a b c near_iff_norm by blast
qed

theorem detect_vehicles_ml_prunes_far_witness:
  "fst (snd (detect_vehicles_ml calls_return (\<lambda>s::unit. ''0.90'') \<lparr>shape0 = 480, shape1 = 640, drawn = []\<rparr>
      \<lparr>detect_vehicles = (\<lambda>f. Inr [(0, 90, 10, 110, (), 1)]), classes = [''background'', ''car'']\<rparr>
      [(35, 140), (5, 149), (5, 400)] 0 300 10)) = [(5, 149)] \<and>
   fst (snd (detect_vehicles_ml calls_return (\<lambda>s::unit. ''0.90'') \<lparr>shape0 = 480, shape1 = 640, drawn = []\<rparr>
      \<lparr>detect_vehicles = (\<lambda>f. Inr []), classes = [''background'', ''car'']\<rparr>
      [(35, 140), (5, 149), (5, 400)] 0 300 10)) = [] \<and>
   sq_dist (35, 140) (5, 100) = 2500 \<and> \<not> near (35, 140) (5, 100) \<and> near (5, 149) (5, 100)"
proof -
  let ?fmt = "\<lambda>s::unit. ''0.90''"
  let ?F = "\<lparr>shape0 = 480, shape1 = 640, drawn = []\<rparr>"
  let ?d = "\<lparr>detect_vehicles = (\<lambda>f. Inr [(0, 90, 10, 110, (), 1)]),
              classes = [''background'', ''car'']\<rparr> :: unit ml_detector"
  let ?nodet = "\<lparr>detect_vehicles = (\<lambda>f. Inr []),
              classes = [''background'', ''car'']\<rparr> :: unit ml_detector"
  have a: "detect_vehicles ?d ?F = Inr [(0, 90, 10, 110, (), 1)]" by simp
  have a0: "detect_vehicles ?nodet ?F = Inr []" by simp
  have v: "\<forall>det \<in> set [(0, 90, 10, 110, (), 1)]. valid_label (classes ?d) (det_label det)"
    by (simp add: valid_label_def det_label_def)
  have v0: "\<forall>det \<in> set []. valid_label (classes ?nodet) (det_label det)"
    by simp
  have p: "fst (snd (detect_vehicles_ml calls_return ?fmt ?F ?d [(35, 140), (5, 149), (5, 400)] 0 300 10)) = [(5, 149)]"
    by (simp add: detect_vehicles_ml_def ml_try_def ml_collect_def cv_draw_def calls_return_def
        Let_def py_index_def box_centroid_def
        line_position_def crossing_def near_def sq_dist_def)
  show ?thesis
    using detect_vehicles_ml_prunes_far [OF a v, where m = "(35, 140)" and fmt = ?fmt
          and matches = "[(35, 140), (5, 149), (5, 400)]" and vehicle_counter = 0
          and line_height = 300 and offset = 10 and c' = "(5, 100)"]
      detect_vehicles_ml_prunes_far [OF a0 v0, where m = "(35, 140)" and fmt = ?fmt
          and matches = "[(35, 140), (5, 149), (5, 400)]" and vehicle_counter = 0
          and line_height = 300 and offset = 10 and c' = "(5, 100)"]
      p
    by (simp add: Let_def near_def sq_dist_def)
qed

text \<open>
  Claim C7. Both trackers draw the line and evaluate the band at the frame height
  minus 50 when the configured line height is at least the frame height, and at the
  configured line height otherwise (for \<open>detect_vehicles_ml\<close>: once the detector has
  returned, with library calls that return).
\<close>

theorem line_height_clamped:
  "let line_y = (if line_height \<ge> int (shape0 frame) then int (shape0 frame) - 50 else line_height);
       mark = Line (0, line_y) (int (shape1 frame), line_y) green
   in line_position line_height frame = line_y \<and>
      (\<exists>rest. drawn (fst (detect_vehicles_traditional frame contours min_contour_width
                 min_contour_height line_height offset matches vehicle_counter)) =
               drawn frame @ mark # rest) \<and>
      snd (snd (detect_vehicles_traditional frame contours min_contour_width
                 min_contour_height line_height offset matches vehicle_counter)) =
        vehicle_counter + int (length [c \<leftarrow> matches @ contour_centroids min_contour_width
                 min_contour_height contours. crossing line_y offset (snd c)]) \<and>
      (detect_vehicles ml_detector frame = Inr dets \<longrightarrow>
         (\<exists>rest. drawn (fst (detect_vehicles_ml calls_return fmt frame ml_detector matches vehicle_counter
                    line_height offset)) = drawn frame @ mark # rest)) \<and>
      (detect_vehicles ml_detector frame = Inr dets \<and>
       (\<forall>det \<in> set dets. valid_label (classes ml_detector) (det_label det)) \<longrightarrow>
         snd (snd (detect_vehicles_ml calls_return fmt frame ml_detector matches vehicle_counter
                    line_height offset)) =
           vehicle_counter + int (card (set [c \<leftarrow> map box_centroid dets.
                    crossing line_y offset (snd c)] - set matches)))"
proof -
  let ?ly = "line_position line_height frame"
  let ?mark = "Line (0, ?ly) (int (shape1 frame), ?ly) green"
  have ly: "(if line_height \<ge> int (shape0 frame) then int (shape0 frame) - 50 else line_height) = ?ly"
    by (simp add: line_position_def)
  obtain f2 nm where ac: "add_contours min_contour_width min_contour_height contours
      (draw ?mark frame, matches) = (f2, nm)"
    by (cases "add_contours min_contour_width min_contour_height contours (draw ?mark frame, matches)")
  have "fst (add_contours min_contour_width min_contour_height contours (draw ?mark frame, matches)) =
      (draw ?mark frame)\<lparr>drawn := drawn (draw ?mark frame) @
          contour_marks min_contour_width min_contour_height contours\<rparr>"
    by (rule add_contours_frame)
  then have f2: "drawn f2 = drawn frame @ ?mark # contour_marks min_contour_width min_contour_height contours"
    using ac by (simp add: draw_simps)
  obtain rem nc where cc: "count_crossed ?ly offset nm ([], vehicle_counter) = (rem, nc)"
    by (cases "count_crossed ?ly offset nm ([], vehicle_counter)")
  have a: "\<exists>rest. drawn (fst (detect_vehicles_traditional frame contours min_contour_width
                 min_contour_height line_height offset matches vehicle_counter)) =
               drawn frame @ ?mark # rest"
    by (simp add: detect_vehicles_traditional_def Let_def ac cc draw_simps f2)
  have b: "snd (snd (detect_vehicles_traditional frame contours min_contour_width
                 min_contour_height line_height offset matches vehicle_counter)) =
        vehicle_counter + int (length [c \<leftarrow> matches @ contour_centroids min_contour_width
                 min_contour_height contours. crossing ?ly offset (snd c)])"
    by (simp add: traditional_result)
  have c: "\<exists>rest. drawn (fst (detect_vehicles_ml calls_return fmt frame ml_detector matches vehicle_counter
                    line_height offset)) = drawn frame @ ?mark # rest"
    if "detect_vehicles ml_detector frame = Inr dets"
    using that by (rule ml_drawn_line)
  have d: "snd (snd (detect_vehicles_ml calls_return fmt frame ml_detector matches vehicle_counter
                    line_height offset)) =
           vehicle_counter + int (card (set [c \<leftarrow> map box_centroid dets.
                    crossing ?ly offset (snd c)] - set matches))"
    if "detect_vehicles ml_detector frame = Inr dets"
      and "\<forall>det \<in> set dets. valid_label (classes ml_detector) (det_label det)"
    using ml_success [OF that, of fmt matches vehicle_counter line_height offset]
    by (simp add: count_new_counter)
  show ?thesis unfolding Let_def ly using a b c d by blast
qed

theorem line_height_clamped_witness:
  "line_position 1000 \<lparr>shape0 = 480, shape1 = 640, drawn = []\<rparr> = 430 \<and>
   line_position 479 \<lparr>shape0 = 480, shape1 = 640, drawn = []\<rparr> = 479 \<and>
   line_position 480 \<lparr>shape0 = 480, shape1 = 640, drawn = []\<rparr> = 430 \<and>
   detect_vehicles_traditional \<lparr>shape0 = 480, shape1 = 640, drawn = []\<rparr> [] 20 20 1000 10
      [(3, 430)] 0 =
     (\<lparr>shape0 = 480, shape1 = 640,
        drawn = [Line (0, 430) (640, 430) green, TextRect ''Vehicle Count: 1'' (10, 30)]\<rparr>, [], 1) \<and>
   detect_vehicles_ml calls_return (\<lambda>s::unit. ''0.90'') \<lparr>shape0 = 480, shape1 = 640, drawn = []\<rparr>
      \<lparr>detect_vehicles = (\<lambda>f. Inr [(0, 420, 10, 440, (), 1)]), classes = [''background'', ''car'']\<rparr>
      [] 0 1000 10 =
     (\<lparr>shape0 = 480, shape1 = 640,
        drawn = [Line (0, 430) (640, 430) green, Rectangle (0, 420) (10, 440) green,
                 Circle (5, 430) 5 red, PutText ''car: 0.90'' (0, 410) green,
                 TextRect ''Vehicle Count: 1'' (10, 30)]\<rparr>, [(5, 430)], 1)"
proof -
  let ?fmt = "\<lambda>s::unit. ''0.90''"
  let ?F = "\<lparr>shape0 = 480, shape1 = 640, drawn = []\<rparr>"
  let ?d = "\<lparr>detect_vehicles = (\<lambda>f. Inr [(0, 420, 10, 440, (), 1)]),
              classes = [''background'', ''car'']\<rparr> :: unit ml_detector"
  have s: "str_int 1 = ''1''"
    by (simp add: str_int_def str_nat.simps digit_char_def)
  have t: "detect_vehicles_traditional ?F [] 20 20 1000 10 [(3, 430)] 0 =
     (\<lparr>shape0 = 480, shape1 = 640,
        drawn = [Line (0, 430) (640, 430) green, TextRect ''Vehicle Count: 1'' (10, 30)]\<rparr>, [], 1)"
    by (simp add: detect_vehicles_traditional_def Let_def line_position_def crossing_def draw_def s)
  have m: "detect_vehicles_ml calls_return ?fmt ?F ?d [] 0 1000 10 =
     (\<lparr>shape0 = 480, shape1 = 640,
        drawn = [Line (0, 430) (640, 430) green, Rectangle (0, 420) (10, 440) green,
                 Circle (5, 430) 5 red, PutText ''car: 0.90'' (0, 410) green,
                 TextRect ''Vehicle Count: 1'' (10, 30)]\<rparr>, [(5, 430)], 1)"
    by (simp add: detect_vehicles_ml_def ml_try_def ml_collect_def cv_draw_def calls_return_def
        Let_def py_index_def box_centroid_def
        line_position_def crossing_def near_def sq_dist_def draw_def s)
  show ?thesis
    using line_height_clamped [where line_height = 1000 and frame = ?F and contours = "[]"
          and min_contour_width = 20 and min_contour_height = 20 and offset = 10
          and matches = "[(3, 430)]" and vehicle_counter = 0 and ml_detector = ?d
          and dets = "[(0, 420, 10, 440, (), 1)]" and fmt = ?fmt]
      line_height_clamped [where line_height = 479 and frame = ?F and contours = "[]"
          and min_contour_width = 20 and min_contour_height = 20 and offset = 10
          and matches = "[(3, 430)]" and vehicle_counter = 0 and ml_detector = ?d
          and dets = "[(0, 420, 10, 440, (), 1)]" and fmt = ?fmt]
      line_height_clamped [where line_height = 480 and frame = ?F and contours = "[]"
          and min_contour_width = 20 and min_contour_height = 20 and offset = 10
          and matches = "[(3, 430)]" and vehicle_counter = 0 and ml_detector = ?d
          and dets = "[(0, 420, 10, 440, (), 1)]" and fmt = ?fmt]
      t m
    by (simp add: Let_def)
qed

text \<open>
  Claim C8. A region of positive width and height that lies entirely outside the
  mask leaves the image and the counter as they are: \<open>check_parking_space\<close> on a list
  containing it continues with the regions after it from the state reached before
  it.
\<close>

theorem check_parking_space_skips_outside:
  assumes "0 < w" and "0 < h"
    and "x \<ge> mask_shape1 processed_img \<or> y \<ge> mask_shape0 processed_img \<or> x + w \<le> 0 \<or> y + h \<le> 0"
  shows "space_step processed_img threshold i (x, y, w, h) st = st \<and>
         check_parking_space processed_img img (ps @ (x, y, w, h) # qs) threshold =
           check_spaces processed_img threshold (Suc (length ps)) qs
             (check_parking_space processed_img img ps threshold)"
proof -
  have out: "\<not> in_bounds processed_img (x, y, w, h)"
    using assms by (auto simp add: in_bounds_def)
  then have step: "space_step processed_img threshold j (x, y, w, h) s = s" for j s
    by (rule space_step_skip)
  show ?thesis
    by (simp add: check_parking_space_def check_spaces_append step)
qed

theorem check_parking_space_skips_outside_witness:
  "mask_shape1 [[0,255,255,0],[0,255,255,0],[0,0,0,0]] = 4 \<and>
   space_step [[0,255,255,0],[0,255,255,0],[0,0,0,0]] 5 1 (5, 5, 1, 1)
     (\<lparr>shape0 = 3, shape1 = 4, drawn = []\<rparr>, 0) = (\<lparr>shape0 = 3, shape1 = 4, drawn = []\<rparr>, 0) \<and>
   check_parking_space [[0,255,255,0],[0,255,255,0],[0,0,0,0]] \<lparr>shape0 = 3, shape1 = 4, drawn = []\<rparr>
     [(1, 0, 2, 2), (5, 5, 1, 1)] 5 =
   check_parking_space [[0,255,255,0],[0,255,255,0],[0,0,0,0]] \<lparr>shape0 = 3, shape1 = 4, drawn = []\<rparr>
     [(1, 0, 2, 2)] 5"
proof -
  let ?M = "[[0,255,255,0],[0,255,255,0],[0,0,0,0]] :: mask"
  let ?F = "\<lparr>shape0 = 3, shape1 = 4, drawn = []\<rparr>"
  have w: "(0::int) < 1" by simp
  have m: "mask_shape1 ?M = 4" by (simp add: mask_shape1_def)
  have out: "5 \<ge> mask_shape1 ?M \<or> 5 \<ge> mask_shape0 ?M \<or> (5::int) + 1 \<le> 0 \<or> (5::int) + 1 \<le> 0"
    by (simp add: m)
  show ?thesis
    using check_parking_space_skips_outside [OF w w out, where threshold = 5 and i = 1
        and st = "(?F, 0)" and img = ?F and ps = "[(1, 0, 2, 2)]" and qs = "[]"]
    by (simp add: m)
qed

text \<open>
  Claim C9. The counter returned by \<open>detect_vehicles_traditional\<close> and by
  \<open>detect_vehicles_ml\<close> is never below the counter passed in, whatever call raises
  inside the \<open>try\<close> block. The traditional
  tracker adds one for each in-band centroid of the combined pool, the detector-based
  one adds one for each distinct in-band centroid that is new to the carried pool.
\<close>

theorem vehicle_counter_monotone:
  "vehicle_counter \<le> snd (snd (detect_vehicles_traditional fr contours min_contour_width
        min_contour_height line_height offset matches vehicle_counter)) \<and>
   vehicle_counter \<le> snd (snd (detect_vehicles_ml l fmt frame ml_detector matches vehicle_counter
        line_height offset)) \<and>
   snd (snd (detect_vehicles_traditional fr contours min_contour_width
        min_contour_height line_height offset matches vehicle_counter)) =
     vehicle_counter +
     int (length [c \<leftarrow> matches @ contour_centroids min_contour_width min_contour_height contours.
                    crossing (line_position line_height fr) offset (snd c)]) \<and>
   (detect_vehicles ml_detector frame = Inr dets \<and>
    (\<forall>det \<in> set dets. valid_label (classes ml_detector) (det_label det)) \<longrightarrow>
    snd (snd (detect_vehicles_ml calls_return fmt frame ml_detector matches vehicle_counter line_height offset)) =
      vehicle_counter +
      int (card (set [c \<leftarrow> map box_centroid dets.
                        crossing (line_position line_height frame) offset (snd c)] - set matches)))"
proof -
  have a: "snd (snd (detect_vehicles_traditional fr contours min_contour_width
        min_contour_height line_height offset matches vehicle_counter)) =
     vehicle_counter +
     int (length [c \<leftarrow> matches @ contour_centroids min_contour_width min_contour_height contours.
                    crossing (line_position line_height fr) offset (snd c)])"
    by (simp add: traditional_result)
  let ?st = "\<lparr>frame_obj = frame, matches_obj = matches\<rparr>"
  obtain st' r where t: "ml_try l fmt ml_detector vehicle_counter line_height offset ?st = (st', r)"
    by (cases "ml_try l fmt ml_detector vehicle_counter line_height offset ?st")
  have b: "vehicle_counter \<le> snd (snd (detect_vehicles_ml l fmt frame ml_detector matches vehicle_counter
        line_height offset))"
  proof (cases r)
    case (Inl e)
    then show ?thesis by (simp add: detect_vehicles_ml_def t)
  next
    case (Inr p)
    obtain nm nc where p: "p = (nm, nc)" by (cases p)
    have "vehicle_counter \<le> nc"
      using t Inr p ml_try_counter_mono by blast
    then show ?thesis by (simp add: detect_vehicles_ml_def t Inr p)
  qed
  have c: "snd (snd (detect_vehicles_ml calls_return fmt frame ml_detector matches vehicle_counter line_height offset)) =
      vehicle_counter +
      int (card (set [c \<leftarrow> map box_centroid dets.
                        crossing (line_position line_height frame) offset (snd c)] - set matches))"
    if "detect_vehicles ml_detector frame = Inr dets"
      and "\<forall>det \<in> set dets. valid_label (classes ml_detector) (det_label det)"
    using ml_success [OF that, of fmt matches vehicle_counter line_height offset]
    by (simp add: count_new_counter)
  show ?thesis using a b c by simp
qed

theorem vehicle_counter_monotone_witness:
  "(3::int) \<le> snd (snd (detect_vehicles_traditional \<lparr>shape0 = 480, shape1 = 640, drawn = []\<rparr>
        [] 20 20 100 10 [(3, 100), (4, 105), (5, 200)] 3)) \<and>
   snd (snd (detect_vehicles_traditional \<lparr>shape0 = 480, shape1 = 640, drawn = []\<rparr>
        [] 20 20 100 10 [(3, 100), (4, 105), (5, 200)] 3)) = 5 \<and>
   snd (snd (detect_vehicles_ml calls_return (\<lambda>s::unit. ''0.90'') \<lparr>shape0 = 480, shape1 = 640, drawn = []\<rparr>
      \<lparr>detect_vehicles = (\<lambda>f. Inr [(0, 90, 10, 110, (), 1)]), classes = [''background'', ''car'']\<rparr>
      [(3, 100), (4, 105), (5, 200)] 3 100 10)) = 4 \<and>
   snd (snd (detect_vehicles_ml text_rect_raises two_digits vga one_car
      [(3, 100), (4, 105), (5, 200)] 3 100 10)) = 3"
proof -
  let ?fmt = "\<lambda>s::unit. ''0.90''"
  let ?F = "\<lparr>shape0 = 480, shape1 = 640, drawn = []\<rparr>"
  let ?d = "\<lparr>detect_vehicles = (\<lambda>f. Inr [(0, 90, 10, 110, (), 1)]),
              classes = [''background'', ''car'']\<rparr> :: unit ml_detector"
  have v: "valid_label [''background'', ''car''] (det_label (0, 90, 10, 110, (), 1))"
    by (simp add: valid_label_def det_label_def)
  have x: "snd (snd (detect_vehicles_ml text_rect_raises two_digits vga one_car
      [(3, 100), (4, 105), (5, 200)] 3 100 10)) = 3"
    by (simp add: detect_vehicles_ml_def ml_try_def ml_collect_def one_car_def vga_def cv_draw_def
        text_rect_raises_def Let_def py_index_def box_centroid_def line_position_def draw_def
        crossing_def near_def sq_dist_def)
  show ?thesis
    using vehicle_counter_monotone [where l = calls_return and vehicle_counter = 3 and fr = ?F
        and contours = "[]"
        and min_contour_width = 20 and min_contour_height = 20 and line_height = 100
        and offset = 10 and matches = "[(3, 100), (4, 105), (5, 200)]" and fmt = ?fmt
        and frame = ?F and ml_detector = ?d and dets = "[(0, 90, 10, 110, (), 1)]"]
      vehicle_counter_monotone [where l = text_rect_raises and vehicle_counter = 3 and fr = ?F
        and contours = "[]"
        and min_contour_width = 20 and min_contour_height = 20 and line_height = 100
        and offset = 10 and matches = "[(3, 100), (4, 105), (5, 200)]" and fmt = two_digits
        and frame = vga and ml_detector = one_car and dets = "[(0, 90, 10, 110, (), 1)]"]
      x
    by (simp add: v contour_centroids_def line_position_def crossing_def box_centroid_def)
qed

text \<open>
  Claim C10. A region is scored and drawn only when \<open>y \<ge> 0\<close>, \<open>x \<ge> 0\<close>,
  \<open>y + h < shape[0]\<close> and \<open>x + w < shape[1]\<close>; a region whose bottom edge equals the
  mask height or whose right edge equals the mask width is skipped.
\<close>

theorem in_bounds_far_edges_strict:
  "(in_bounds processed_img (x, y, w, h) \<longleftrightarrow>
      0 \<le> y \<and> 0 \<le> x \<and> y + h < mask_shape0 processed_img \<and> x + w < mask_shape1 processed_img) \<and>
   (\<not> in_bounds processed_img (x, y, w, h) \<longrightarrow>
      space_step processed_img threshold i (x, y, w, h) st = st) \<and>
   (y + h = mask_shape0 processed_img \<or> x + w = mask_shape1 processed_img \<longrightarrow>
      space_step processed_img threshold i (x, y, w, h) st = st)"
proof -
  have "\<not> in_bounds processed_img (x, y, w, h)"
    if "y + h = mask_shape0 processed_img \<or> x + w = mask_shape1 processed_img"
    using that by (auto simp add: in_bounds_def)
  then show ?thesis
    by (auto simp add: space_step_skip) (auto simp add: in_bounds_def)
qed

theorem in_bounds_far_edges_strict_witness:
  "\<not> in_bounds [[255,255],[255,255]] (0, 0, 2, 2) \<and>
   region_count [[255,255],[255,255]] (0, 0, 2, 2) = 4 \<and>
   space_step [[255,255],[255,255]] 1 0 (0, 0, 2, 2) (\<lparr>shape0 = 2, shape1 = 2, drawn = []\<rparr>, 0) =
     (\<lparr>shape0 = 2, shape1 = 2, drawn = []\<rparr>, 0) \<and>
   space_step [[255,255],[255,255]] 1 0 (0, 0, 1, 2) (\<lparr>shape0 = 2, shape1 = 2, drawn = []\<rparr>, 0) =
     (\<lparr>shape0 = 2, shape1 = 2, drawn = []\<rparr>, 0) \<and>
   in_bounds [[255,255],[255,255]] (0, 0, 1, 1)"
proof -
  let ?M = "[[255,255],[255,255]] :: mask"
  let ?F = "\<lparr>shape0 = 2, shape1 = 2, drawn = []\<rparr>"
  have m: "mask_shape0 ?M = 2" "mask_shape1 ?M = 2"
    by (simp_all add: mask_shape0_def mask_shape1_def)
  have c: "region_count ?M (0, 0, 2, 2) = 4"
    by (simp add: region_count_def py_slice_def py_bound_def countNonZero_def)
  show ?thesis
    using in_bounds_far_edges_strict [where processed_img = ?M and x = 0 and y = 0 and w = 2
        and h = 2 and threshold = 1 and i = 0 and st = "(?F, 0)"]
      in_bounds_far_edges_strict [where processed_img = ?M and x = 0 and y = 0 and w = 1
        and h = 2 and threshold = 1 and i = 0 and st = "(?F, 0)"]
      in_bounds_far_edges_strict [where processed_img = ?M and x = 0 and y = 0 and w = 1
        and h = 1 and threshold = 1 and i = 0 and st = "(?F, 0)"]
    by (simp add: m c)
qed

end
